theory Spec2Isabelle
  imports
    Main
    "HOL-Library.Char_ord"
    "HOL-Library.List_Lexorder"
    "HOL-Library.Multiset"
    "HOL-Library.Product_Lexorder"
begin

section \<open>Tables of the dengue dashboard\<close>

text \<open>
  The three Python files (\<^verbatim>\<open>app.py\<close>, \<^verbatim>\<open>app_simple.py\<close>,
  \<^verbatim>\<open>fetch_data.py\<close>) move JSON records of the InfoDengue/Mosqlimate services
  through pandas data frames.  A cell of a frame is a missing value (\<^verbatim>\<open>None\<close>,
  \<^verbatim>\<open>NaN\<close>, \<^verbatim>\<open>NaT\<close>), a number, a text or a timestamp.  Numbers are integers
  here; a timestamp is the integer count that \<^verbatim>\<open>pd.to_datetime\<close> reads a number as.
\<close>

datatype cell = NA | Num int | Str string | Date int

text \<open>
  A data frame is a list of column labels and a list of rows, every row holding one cell per
  column in column order.  \<open>cell_at\<close> reads a row at a label; a label the row does not
  reach reads as missing.
\<close>

record table =
  columns :: "string list"
  rows :: "cell list list"

definition cell_at :: "string list \<Rightarrow> string \<Rightarrow> cell list \<Rightarrow> cell" where
  "cell_at cols c r = (case map_of (zip cols r) c of Some v \<Rightarrow> v | None \<Rightarrow> NA)"

text \<open>\<^verbatim>\<open>df[c]\<close>: the column as a series of cells.\<close>

definition col_vals :: "table \<Rightarrow> string \<Rightarrow> cell list" where
  "col_vals t c = map (cell_at (columns t) c) (rows t)"

text \<open>\<^verbatim>\<open>pd.DataFrame()\<close> and \<^verbatim>\<open>df.empty\<close> (no rows, or no columns).\<close>

definition empty_frame :: table where
  "empty_frame = \<lparr>columns = [], rows = []\<rparr>"

definition is_empty :: "table \<Rightarrow> bool" where
  "is_empty t = (rows t = [] \<or> columns t = [])"

text \<open>
  What the libraries decide is not part of the repository: how \<^verbatim>\<open>pd.to_numeric\<close> and
  \<^verbatim>\<open>pd.to_datetime\<close> read a text, how Python prints a timestamp, and in which order a
  sort returns the positions of its keys.  \<^verbatim>\<open>sort_values\<close> and \<^verbatim>\<open>sort_index\<close> are
  called without \<^verbatim>\<open>kind\<close>, so pandas sorts with numpy's quicksort, which is ascending
  but not stable: which of two equal keys comes first is the library's choice.  These are
  parameters of the model.  A sort key is a triple: missing last, then the number or
  timestamp, then the text.
\<close>

type_synonym rank = "bool \<times> int \<times> string"

record pylib =
  num_of_str :: "string \<Rightarrow> int option"
  date_of_str :: "string \<Rightarrow> int option"
  str_of_date :: "int \<Rightarrow> string"
  argsort :: "rank list \<Rightarrow> nat list"

text \<open>
  \<open>sorts\<close> says what every sort of the library does: \<open>argsort\<close> returns the positions
  of the keys, each once, in an order in which the keys ascend.  \<open>lib_sort\<close> takes the
  elements in that order.
\<close>

definition sorts :: "pylib \<Rightarrow> bool" where
  "sorts L =
     (\<forall>ks. mset (argsort L ks) = mset [0..<length ks] \<and> sorted (map ((!) ks) (argsort L ks)))"

definition lib_sort :: "pylib \<Rightarrow> ('a \<Rightarrow> rank) \<Rightarrow> 'a list \<Rightarrow> 'a list" where
  "lib_sort L key xs = map ((!) xs) (filter (\<lambda>i. i < length xs) (argsort L (map key xs)))"

section \<open>Printing integers\<close>

text \<open>Python's \<^verbatim>\<open>str\<close> of an integer, used by the f-string \<^verbatim>\<open>f"N\'ivel {i}"\<close>.\<close>

definition digit_char :: "nat \<Rightarrow> char" where
  "digit_char d = char_of (48 + d)"

function str_nat :: "nat \<Rightarrow> string" where
  "str_nat n = (if n < 10 then [digit_char n] else str_nat (n div 10) @ [digit_char (n mod 10)])"
  by pat_completeness auto
termination
  by (relation "measure (\<lambda>n. n)") auto

definition str_int :: "int \<Rightarrow> string" where
  "str_int i = (if i < 0 then CHR ''-'' # str_nat (nat (- i)) else str_nat (nat i))"

definition str_cell :: "pylib \<Rightarrow> cell \<Rightarrow> string" where
  "str_cell L v =
     (case v of NA \<Rightarrow> ''nan'' | Num n \<Rightarrow> str_int n | Str s \<Rightarrow> s | Date d \<Rightarrow> str_of_date L d)"

section \<open>Alert levels\<close>

text \<open>
  \<^verbatim>\<open>get_alert_level_info\<close> of \<^verbatim>\<open>app.py\<close>: a dictionary from level to (name, colour)
  and \<^verbatim>\<open>levels.get(int(level), ("Desconhecido", "#95a5a6"))\<close>.
\<close>

definition levels :: "(int \<times> string \<times> string) list" where
  "levels =
     [(1, (''Verde'', ''#2ecc71'')),
      (2, (''Amarelo'', ''#f39c12'')),
      (3, (''Laranja'', ''#e67e22'')),
      (4, (''Vermelho'', ''#e74c3c''))]"

definition get_alert_level_info :: "int \<Rightarrow> string \<times> string" where
  "get_alert_level_info level =
     (case map_of levels level of Some p \<Rightarrow> p | None \<Rightarrow> (''Desconhecido'', ''#95a5a6''))"

text \<open>
  The two dictionaries \<^verbatim>\<open>nivel_names\<close> and \<^verbatim>\<open>nivel_colors\<close> that the distribution
  charts of both applications and the single-municipality view of \<^verbatim>\<open>app_simple.py\<close>
  build.
\<close>

definition nivel_names :: "(int \<times> string) list" where
  "nivel_names = [(1, ''Verde''), (2, ''Amarelo''), (3, ''Laranja''), (4, ''Vermelho'')]"

definition nivel_colors :: "(int \<times> string) list" where
  "nivel_colors = [(1, ''#2ecc71''), (2, ''#f39c12''), (3, ''#e67e22''), (4, ''#e74c3c'')]"

text \<open>
  The single-municipality view of \<^verbatim>\<open>app_simple.py\<close>:
  \<^verbatim>\<open>nivel_names.get(nivel, "Desconhecido")\<close> and \<^verbatim>\<open>nivel_colors.get(nivel, "#95a5a6")\<close>.
\<close>

definition single_view_info :: "int \<Rightarrow> string \<times> string" where
  "single_view_info nivel =
     (case map_of nivel_names nivel of Some n \<Rightarrow> n | None \<Rightarrow> ''Desconhecido'',
      case map_of nivel_colors nivel of Some c \<Rightarrow> c | None \<Rightarrow> ''#95a5a6'')"

text \<open>
  The distribution charts: \<^verbatim>\<open>nivel_names.get(i, f"N\'ivel {i}")\<close> and
  \<^verbatim>\<open>nivel_colors.get(i, "#95a5a6")\<close> for every index value \<open>i\<close> of the counts.  Only a
  number is a key of the dictionaries.  The letter after the N is U+00ED.
\<close>

definition nivel_prefix :: string where
  "nivel_prefix = CHR ''N'' # CHR 0xED # ''vel ''"

definition dist_label :: "pylib \<Rightarrow> cell \<Rightarrow> string" where
  "dist_label L i =
     (case (case i of Num n \<Rightarrow> map_of nivel_names n | _ \<Rightarrow> None) of
        Some name \<Rightarrow> name
      | None \<Rightarrow> nivel_prefix @ str_cell L i)"

definition dist_color :: "cell \<Rightarrow> string" where
  "dist_color i =
     (case (case i of Num n \<Rightarrow> map_of nivel_colors n | _ \<Rightarrow> None) of
        Some c \<Rightarrow> c
      | None \<Rightarrow> ''#95a5a6'')"

definition dist_info :: "pylib \<Rightarrow> int \<Rightarrow> string \<times> string" where
  "dist_info L level = (dist_label L (Num level), dist_color (Num level))"

section \<open>Exceptions and library operations on frames\<close>

text \<open>
  A Python exception is a value.  \<open>RequestException\<close> stands for the family of
  \<^verbatim>\<open>requests.exceptions.RequestException\<close> (time-out, connection error, and the
  \<^verbatim>\<open>HTTPError\<close> that \<^verbatim>\<open>raise_for_status\<close> raises for a status outside 2xx).
\<close>

datatype failure = Timeout | ConnectionError | HTTPError nat

datatype exc = RequestException failure | AttributeError | KeyError string | TypeError

definition and_then :: "exc + 'a \<Rightarrow> ('a \<Rightarrow> exc + 'b) \<Rightarrow> exc + 'b" where
  "and_then m f = (case m of Inl e \<Rightarrow> Inl e | Inr x \<Rightarrow> f x)"

text \<open>
  A JSON object with scalar fields.  Python keeps the position of the first and the value of
  the last occurrence of a key.
\<close>

type_synonym jrecord = "(string \<times> cell) list"

definition dict_get :: "jrecord \<Rightarrow> string \<Rightarrow> cell option" where
  "dict_get d k = map_of (rev d) k"

definition first_seen :: "'a list \<Rightarrow> 'a list" where
  "first_seen xs = rev (remdups (rev xs))"

text \<open>
  \<^verbatim>\<open>pd.DataFrame(items)\<close> for a list of records: the columns are the keys in order of
  first appearance, a key that a record lacks is a missing cell.
\<close>

definition DataFrame :: "jrecord list \<Rightarrow> table" where
  "DataFrame items =
     (let cols = first_seen (concat (map (map fst) items))
      in \<lparr>columns = cols,
          rows = map (\<lambda>d. map (\<lambda>c. case dict_get d c of Some v \<Rightarrow> v | None \<Rightarrow> NA) cols) items\<rparr>)"

text \<open>
  \<^verbatim>\<open>df[c] = ...\<close>: the column is replaced where it exists and appended otherwise.
  \<open>set_col\<close> takes the new cell as a function of the old row.
\<close>

definition set_col :: "string \<Rightarrow> (cell list \<Rightarrow> cell) \<Rightarrow> table \<Rightarrow> table" where
  "set_col c f t =
     (let cols = columns t;
          cols' = (if c \<in> set cols then cols else cols @ [c])
      in \<lparr>columns = cols',
          rows = map (\<lambda>r. map (\<lambda>k. if k = c then f r else cell_at cols k r) cols') (rows t)\<rparr>)"

definition map_col :: "string \<Rightarrow> (cell \<Rightarrow> cell) \<Rightarrow> table \<Rightarrow> table" where
  "map_col c g t = set_col c (\<lambda>r. g (cell_at (columns t) c r)) t"

text \<open>
  \<^verbatim>\<open>pd.to_numeric(..., errors='coerce')\<close> and \<^verbatim>\<open>pd.to_datetime(..., errors='coerce')\<close>
  on one cell: what cannot be read becomes missing.  A number is read as a timestamp count
  from the epoch, so \<^verbatim>\<open>pd.to_datetime(0)\<close> is the epoch itself.
\<close>

definition to_numeric :: "pylib \<Rightarrow> cell \<Rightarrow> cell" where
  "to_numeric L v =
     (case v of
        NA \<Rightarrow> NA
      | Num n \<Rightarrow> Num n
      | Str s \<Rightarrow> (case num_of_str L s of Some n \<Rightarrow> Num n | None \<Rightarrow> NA)
      | Date d \<Rightarrow> Num d)"

definition to_datetime :: "pylib \<Rightarrow> cell \<Rightarrow> cell" where
  "to_datetime L v =
     (case v of
        NA \<Rightarrow> NA
      | Num n \<Rightarrow> Date n
      | Str s \<Rightarrow> (case date_of_str L s of Some d \<Rightarrow> Date d | None \<Rightarrow> NA)
      | Date d \<Rightarrow> Date d)"

text \<open>\<^verbatim>\<open>df.fillna(0)\<close>: every missing cell of the frame becomes the number 0.\<close>

definition fill0 :: "cell \<Rightarrow> cell" where
  "fill0 v = (case v of NA \<Rightarrow> Num 0 | _ \<Rightarrow> v)"

definition fillna0 :: "table \<Rightarrow> table" where
  "fillna0 t =
     t\<lparr>rows := map (\<lambda>r. map (\<lambda>k. fill0 (cell_at (columns t) k r)) (columns t)) (rows t)\<rparr>"

text \<open>
  \<^verbatim>\<open>df.sort_values(c)\<close>.  A label that is no column raises \<^verbatim>\<open>KeyError\<close>.  Python
  orders numbers, texts and timestamps among themselves only: a column that mixes two of
  these kinds raises \<^verbatim>\<open>TypeError\<close>.  Missing cells come last.  The order of rows with
  equal keys is the library's.
\<close>

definition kind :: "cell \<Rightarrow> nat" where
  "kind v = (case v of NA \<Rightarrow> 0 | Num _ \<Rightarrow> 1 | Str _ \<Rightarrow> 2 | Date _ \<Rightarrow> 3)"

definition comparable :: "cell list \<Rightarrow> bool" where
  "comparable vs = (length (remdups (map kind (filter (\<lambda>v. v \<noteq> NA) vs))) \<le> 1)"

definition sort_rank :: "cell \<Rightarrow> rank" where
  "sort_rank v =
     (case v of
        NA \<Rightarrow> (True, 0, [])
      | Num n \<Rightarrow> (False, n, [])
      | Str s \<Rightarrow> (False, 0, s)
      | Date d \<Rightarrow> (False, d, []))"

definition sort_values :: "pylib \<Rightarrow> string \<Rightarrow> table \<Rightarrow> exc + table" where
  "sort_values L c t =
     (if c \<notin> set (columns t) then Inl (KeyError c)
      else if \<not> comparable (col_vals t c) then Inl TypeError
      else Inr (t\<lparr>rows := lib_sort L (\<lambda>r. sort_rank (cell_at (columns t) c r)) (rows t)\<rparr>))"

section \<open>The data processor\<close>

text \<open>
  \<^verbatim>\<open>for col in cols: if col in df.columns: df[col] = conv(df[col])\<close>, the loop that
  both versions of \<^verbatim>\<open>process_dengue_data\<close> run.
\<close>

definition coerce_cols :: "(cell \<Rightarrow> cell) \<Rightarrow> string list \<Rightarrow> table \<Rightarrow> table" where
  "coerce_cols conv cols df =
     fold (\<lambda>col d. if col \<in> set (columns d) then map_col col conv d else d) cols df"

text \<open>\<^verbatim>\<open>process_dengue_data\<close> of \<^verbatim>\<open>app.py\<close>.\<close>

definition numeric_cols :: "string list" where
  "numeric_cols =
     [''casos_est'', ''casos_est_min'', ''casos_est_max'', ''casos'',
      ''p_rt1'', ''p_inc100k'', ''Rt'', ''pop'', ''receptivo'', ''transmissao'',
      ''umidmax'', ''umidmed'', ''umidmin'', ''tempmax'', ''tempmed'', ''tempmin'',
      ''casprov'', ''casprov_est'', ''casprov_est_min'', ''casprov_est_max'', ''casconf'']"

definition process_dengue_data :: "pylib \<Rightarrow> table \<Rightarrow> exc + table" where
  "process_dengue_data L df =
     (if is_empty df then Inr df
      else
        let df1 = coerce_cols (to_numeric L) numeric_cols df;
            df2 = coerce_cols (to_datetime L) [''data_iniSE'', ''data_ini_SE''] df1;
            df3 = fillna0 df2
        in if ''data_iniSE'' \<in> set (columns df3) then sort_values L ''data_iniSE'' df3
           else if ''data_ini_SE'' \<in> set (columns df3) then sort_values L ''data_ini_SE'' df3
           else Inr df3)"

text \<open>\<^verbatim>\<open>process_dengue_data\<close> of \<^verbatim>\<open>fetch_data.py\<close>.\<close>

definition fd_numeric_cols :: "string list" where
  "fd_numeric_cols =
     [''casos_est'', ''casos_est_min'', ''casos_est_max'', ''casos'',
      ''p_rt1'', ''p_inc100k'', ''Rt'', ''pop'', ''receptivo'', ''transmissao'',
      ''umidmax'', ''umidmed'', ''umidmin'', ''tempmax'', ''tempmed'', ''tempmin'']"

definition fd_process_dengue_data :: "pylib \<Rightarrow> table \<Rightarrow> exc + table" where
  "fd_process_dengue_data L df =
     (if is_empty df then Inr df
      else
        let df1 = coerce_cols (to_numeric L) fd_numeric_cols df;
            df2 = (if ''data_iniSE'' \<in> set (columns df1)
                   then map_col ''data_iniSE'' (to_datetime L) df1 else df1);
            df3 = fillna0 df2
        in if ''data_iniSE'' \<in> set (columns df3) then sort_values L ''data_iniSE'' df3
           else Inr df3)"

text \<open>Applying a processor to its own output.\<close>

definition twice :: "(table \<Rightarrow> exc + table) \<Rightarrow> table \<Rightarrow> exc + table" where
  "twice p t = and_then (p t) p"

text \<open>
  What the processor does to one row before sorting, seen cell by cell: the numeric
  conversion where the label is a numeric one, the date conversion where it is a date
  label, then the fill.  \<open>coerce_row\<close> is the loop of \<open>coerce_cols\<close> on one row.
\<close>

definition coerce_row ::
  "(cell \<Rightarrow> cell) \<Rightarrow> string list \<Rightarrow> string list \<Rightarrow> cell list \<Rightarrow> cell list" where
  "coerce_row conv cs cols r =
     fold (\<lambda>c r. if c \<in> set cols
                  then map (\<lambda>k. if k = c then conv (cell_at cols c r) else cell_at cols k r) cols
                  else r) cs r"

definition clean_cell :: "string list \<Rightarrow> string list \<Rightarrow> pylib \<Rightarrow> string \<Rightarrow> cell \<Rightarrow> cell" where
  "clean_cell ncols dcols L k v =
     fill0 ((if k \<in> set dcols then to_datetime L else id)
              ((if k \<in> set ncols then to_numeric L else id) v))"

definition clean_row ::
  "string list \<Rightarrow> string list \<Rightarrow> pylib \<Rightarrow> string list \<Rightarrow> cell list \<Rightarrow> cell list" where
  "clean_row ncols dcols L cols r = map (\<lambda>k. clean_cell ncols dcols L k (cell_at cols k r)) cols"

definition cleaned :: "string list \<Rightarrow> string list \<Rightarrow> pylib \<Rightarrow> table \<Rightarrow> table" where
  "cleaned ncols dcols L t = t\<lparr>rows := map (clean_row ncols dcols L (columns t)) (rows t)\<rparr>"

text \<open>
  Both processors in one form: clean every row, then sort by the first of the sort labels
  that is a column.
\<close>

definition sort_label :: "string list \<Rightarrow> table \<Rightarrow> string option" where
  "sort_label scols t = find (\<lambda>c. c \<in> set (columns t)) scols"

definition process_with ::
  "string list \<Rightarrow> string list \<Rightarrow> string list \<Rightarrow> pylib \<Rightarrow> table \<Rightarrow> exc + table" where
  "process_with ncols dcols scols L t =
     (if is_empty t then Inr t
      else case sort_label scols t of
             Some c \<Rightarrow> sort_values L c (cleaned ncols dcols L t)
           | None \<Rightarrow> Inr (cleaned ncols dcols L t))"

text \<open>The frame with its rows in the order that the library sort gives them by a column.\<close>

definition sorted_by :: "pylib \<Rightarrow> string \<Rightarrow> table \<Rightarrow> table" where
  "sorted_by L c t = t\<lparr>rows := lib_sort L (\<lambda>r. sort_rank (cell_at (columns t) c r)) (rows t)\<rparr>"

text \<open>What the numeric conversion and the fill leave of a raw cell.\<close>

definition coerced_or_zero :: "pylib \<Rightarrow> cell \<Rightarrow> cell" where
  "coerced_or_zero L v = (case to_numeric L v of NA \<Rightarrow> Num 0 | w \<Rightarrow> w)"

text \<open>
  Conditions on the raw frame.  \<open>dates_uniform\<close>: the column that the processor sorts by
  holds readable dates only, or none at all (or there is no such column).
  \<open>dates_untied\<close>: no two rows read as the same date in that column.
  \<open>dates_parse\<close>: every cell of the listed date columns reads as a date.
\<close>

definition dates_uniform :: "pylib \<Rightarrow> string list \<Rightarrow> table \<Rightarrow> bool" where
  "dates_uniform L scols t =
     (case sort_label scols t of
        None \<Rightarrow> True
      | Some c \<Rightarrow> list_all (\<lambda>v. to_datetime L v = NA) (col_vals t c) \<or>
                  list_all (\<lambda>v. to_datetime L v \<noteq> NA) (col_vals t c))"

definition dates_untied :: "pylib \<Rightarrow> string list \<Rightarrow> table \<Rightarrow> bool" where
  "dates_untied L scols t =
     (case sort_label scols t of
        None \<Rightarrow> True
      | Some c \<Rightarrow> distinct (map (to_datetime L) (col_vals t c)))"


definition dates_parse :: "pylib \<Rightarrow> string list \<Rightarrow> table \<Rightarrow> bool" where
  "dates_parse L dcols t =
     (\<forall>r \<in> set (rows t). \<forall>k \<in> set dcols.
        k \<in> set (columns t) \<longrightarrow> to_datetime L (cell_at (columns t) k r) \<noteq> NA)"

section \<open>Aggregation views\<close>

text \<open>
  \<^verbatim>\<open>groupby(g).tail(1)\<close>: of the rows whose key is present, those that no later row
  with the same key follows, in the order of the frame.
\<close>

fun last_per_group :: "('a \<Rightarrow> cell) \<Rightarrow> 'a list \<Rightarrow> 'a list" where
  "last_per_group g [] = []"
| "last_per_group g (x # xs) =
     (if g x = NA \<or> g x \<in> g ` set xs then last_per_group g xs
      else x # last_per_group g xs)"

definition groupby_tail1 :: "string \<Rightarrow> table \<Rightarrow> exc + table" where
  "groupby_tail1 g t =
     (if g \<notin> set (columns t) then Inl (KeyError g)
      else Inr (t\<lparr>rows := last_per_group (cell_at (columns t) g) (rows t)\<rparr>))"

text \<open>\<^verbatim>\<open>drop_duplicates(subset=[c])\<close> keeps the first row of every value of the column.\<close>

fun keep_first :: "('a \<Rightarrow> 'b) \<Rightarrow> 'b list \<Rightarrow> 'a list \<Rightarrow> 'a list" where
  "keep_first f seen [] = []"
| "keep_first f seen (x # xs) =
     (if f x \<in> set seen then keep_first f seen xs else x # keep_first f (f x # seen) xs)"

definition drop_duplicates :: "string \<Rightarrow> table \<Rightarrow> exc + table" where
  "drop_duplicates c t =
     (if c \<notin> set (columns t) then Inl (KeyError c)
      else Inr (t\<lparr>rows := keep_first (cell_at (columns t) c) [] (rows t)\<rparr>))"

text \<open>\<^verbatim>\<open>df.tail(n)\<close>: the last \<open>n\<close> rows.\<close>

definition tail_rows :: "nat \<Rightarrow> table \<Rightarrow> table" where
  "tail_rows n t = t\<lparr>rows := drop (length (rows t) - n) (rows t)\<rparr>"

text \<open>
  The snapshot \<^verbatim>\<open>df_latest\<close> of \<^verbatim>\<open>app.py\<close> (in \<^verbatim>\<open>create_metrics_summary\<close>,
  \<^verbatim>\<open>create_alert_level_distribution\<close> and \<^verbatim>\<open>create_choropleth_map\<close>):
  \<^verbatim>\<open>df.sort_values('data_iniSE').groupby('municipio_geocodigo').tail(1)\<close>.
\<close>

definition df_latest :: "pylib \<Rightarrow> table \<Rightarrow> exc + table" where
  "df_latest L df =
     and_then (sort_values L ''data_iniSE'' df) (groupby_tail1 ''municipio_geocodigo'')"

text \<open>
  The snapshot of \<^verbatim>\<open>app_simple.py\<close>, with its choice of the column labels and its
  fallback when there is no identifier column.
\<close>

definition simple_df_latest :: "pylib \<Rightarrow> table \<Rightarrow> exc + table" where
  "simple_df_latest L df =
     (let date_col = (if ''data_iniSE'' \<in> set (columns df) then ''data_iniSE'' else ''data_ini_SE'');
          geocode_col = (if ''municipio_geocodigo'' \<in> set (columns df)
                         then ''municipio_geocodigo'' else ''geocode'')
      in if geocode_col \<in> set (columns df)
         then and_then (sort_values L date_col df) (groupby_tail1 geocode_col)
         else and_then (sort_values L date_col df) (\<lambda>sorted.
              and_then (drop_duplicates ''municipio_nome'' df) (\<lambda>d.
              Inr (tail_rows (length (rows d)) sorted))))"

text \<open>
  \<^verbatim>\<open>value_counts()\<close> counts every value that is present (missing cells are not
  counted); \<^verbatim>\<open>sort_index()\<close> orders the counts by value, so the order in which
  \<open>value_counts\<close> lists them does not matter.
\<close>

definition value_counts :: "cell list \<Rightarrow> (cell \<times> nat) list" where
  "value_counts vs =
     (let present = filter (\<lambda>v. v \<noteq> NA) vs
      in map (\<lambda>v. (v, count_list present v)) (remdups present))"

definition sort_index :: "pylib \<Rightarrow> (cell \<times> nat) list \<Rightarrow> exc + (cell \<times> nat) list" where
  "sort_index L cs =
     (if \<not> comparable (map fst cs) then Inl TypeError
      else Inr (lib_sort L (\<lambda>p. sort_rank (fst p)) cs))"

definition nivel_counts :: "pylib \<Rightarrow> table \<Rightarrow> exc + (cell \<times> nat) list" where
  "nivel_counts L latest = sort_index L (value_counts (col_vals latest ''nivel''))"

text \<open>The bar chart: labels, heights and colours of the bars.\<close>

record figure =
  bar_x :: "string list"
  bar_y :: "nat list"
  bar_color :: "string list"

definition alert_bars :: "pylib \<Rightarrow> (cell \<times> nat) list \<Rightarrow> figure" where
  "alert_bars L counts =
     \<lparr>bar_x = map (\<lambda>p. dist_label L (fst p)) counts,
      bar_y = map snd counts,
      bar_color = map (\<lambda>p. dist_color (fst p)) counts\<rparr>"

text \<open>\<^verbatim>\<open>create_alert_level_distribution\<close> of \<^verbatim>\<open>app.py\<close>; an exception escapes.\<close>

definition create_alert_level_distribution :: "pylib \<Rightarrow> table \<Rightarrow> exc + figure option" where
  "create_alert_level_distribution L df =
     (if is_empty df \<or> ''nivel'' \<notin> set (columns df) then Inr None
      else and_then (df_latest L df) (\<lambda>latest.
           and_then (nivel_counts L latest) (\<lambda>counts.
           Inr (Some (alert_bars L counts)))))"

text \<open>
  \<^verbatim>\<open>create_alert_distribution\<close> of \<^verbatim>\<open>app_simple.py\<close>; its \<^verbatim>\<open>try\<close> turns every
  exception into \<^verbatim>\<open>None\<close>.
\<close>

definition create_alert_distribution :: "pylib \<Rightarrow> table \<Rightarrow> figure option" where
  "create_alert_distribution L df =
     (if is_empty df \<or> ''nivel'' \<notin> set (columns df) then None
      else case and_then (simple_df_latest L df) (nivel_counts L) of
             Inl e \<Rightarrow> None
           | Inr counts \<Rightarrow> Some (alert_bars L counts))"

section \<open>Fetching from the paginated endpoint\<close>

text \<open>
  A page of the Mosqlimate endpoint either fails in transport or replies with a JSON body.
  The body is an object whose \<^verbatim>\<open>items\<close> and \<^verbatim>\<open>pagination.total_pages\<close> may be
  absent, or it is no object at all (then \<^verbatim>\<open>data.get\<close> raises \<^verbatim>\<open>AttributeError\<close>).
  The service is a function from the page number to what that request meets.
\<close>

datatype body = Envelope "jrecord list option" "int option" | NotAnObject

datatype response = Failed failure | Replied body

type_synonym server = "int \<Rightarrow> response"

definition items_of :: "body \<Rightarrow> exc + jrecord list" where
  "items_of b =
     (case b of
        Envelope its tp \<Rightarrow> Inr (case its of None \<Rightarrow> [] | Some xs \<Rightarrow> xs)
      | NotAnObject \<Rightarrow> Inl AttributeError)"

text \<open>
  The loop over the later pages.  The state is the list of items so far and the list of the
  page numbers requested so far; the first request that raises ends the loop.
\<close>

fun extend_pages ::
  "server \<Rightarrow> int list \<Rightarrow> jrecord list \<Rightarrow> int list \<Rightarrow> (exc + jrecord list) \<times> int list" where
  "extend_pages srv [] all_items trace = (Inr all_items, trace)"
| "extend_pages srv (page # ps) all_items trace =
     (case srv page of
        Failed f \<Rightarrow> (Inl (RequestException f), trace @ [page])
      | Replied b \<Rightarrow>
          (case items_of b of
             Inl e \<Rightarrow> (Inl e, trace @ [page])
           | Inr its \<Rightarrow> extend_pages srv ps (all_items @ its) (trace @ [page])))"

text \<open>
  Page 1, \<^verbatim>\<open>total_pages\<close> (1 when absent), then the later pages; \<open>later\<close> is the
  \<^verbatim>\<open>range\<close> of the loop.
\<close>

definition total_pages_of :: "int option \<Rightarrow> int" where
  "total_pages_of tp = (case tp of None \<Rightarrow> 1 | Some n \<Rightarrow> n)"

definition collect_pages :: "(int \<Rightarrow> int list) \<Rightarrow> server \<Rightarrow> (exc + jrecord list) \<times> int list" where
  "collect_pages later srv =
     (case srv 1 of
        Failed f \<Rightarrow> (Inl (RequestException f), [1])
      | Replied b \<Rightarrow>
          (case b of
             NotAnObject \<Rightarrow> (Inl AttributeError, [1])
           | Envelope its tp \<Rightarrow>
               extend_pages srv (later (total_pages_of tp))
                 (case its of None \<Rightarrow> [] | Some xs \<Rightarrow> xs) [1]))"

text \<open>\<^verbatim>\<open>range(2, min(total_pages + 1, 6))\<close> in \<^verbatim>\<open>app.py\<close>,
  \<^verbatim>\<open>range(2, total_pages + 1)\<close> in \<^verbatim>\<open>fetch_data.py\<close>.\<close>

definition app_range :: "int \<Rightarrow> int list" where
  "app_range total_pages = [2..min (total_pages + 1) 6 - 1]"

definition fd_range :: "int \<Rightarrow> int list" where
  "fd_range total_pages = [2..total_pages + 1 - 1]"

text \<open>
  What a call leaves behind: the value it returns, the pages it requested, and what it
  reported (\<^verbatim>\<open>logger.error\<close>, \<^verbatim>\<open>st.warning\<close>).
\<close>

datatype event = LogError exc | StWarning exc

record 'a outcome =
  returned :: 'a
  requested :: "int list"
  reported :: "event list"

text \<open>
  \<^verbatim>\<open>fetch_infodengue_state_data\<close> of \<^verbatim>\<open>app.py\<close>: \<^verbatim>\<open>except Exception\<close> turns every
  exception of the body, the processor's included, into the empty frame.
\<close>

definition fetch_infodengue_state_data :: "pylib \<Rightarrow> server \<Rightarrow> table outcome" where
  "fetch_infodengue_state_data L srv =
     (let (res, trace) = collect_pages app_range srv
      in case and_then res (\<lambda>all_items.
                let df = DataFrame all_items
                in if \<not> is_empty df then process_dengue_data L df else Inr df) of
           Inl e \<Rightarrow>
             \<lparr>returned = empty_frame, requested = trace, reported = [LogError e, StWarning e]\<rparr>
         | Inr df \<Rightarrow> \<lparr>returned = df, requested = trace, reported = []\<rparr>)"

text \<open>
  \<^verbatim>\<open>fetch_infodengue_data\<close> of \<^verbatim>\<open>fetch_data.py\<close>: only a
  \<^verbatim>\<open>RequestException\<close> is caught; any other exception reaches the caller.
\<close>

definition fd_fetch_infodengue_data :: "server \<Rightarrow> (exc + table) outcome" where
  "fd_fetch_infodengue_data srv =
     (let (res, trace) = collect_pages fd_range srv
      in case res of
           Inl (RequestException f) \<Rightarrow>
             \<lparr>returned = Inr empty_frame, requested = trace,
              reported = [LogError (RequestException f)]\<rparr>
         | Inl e \<Rightarrow> \<lparr>returned = Inl e, requested = trace, reported = []\<rparr>
         | Inr all_items \<Rightarrow>
             \<lparr>returned = Inr (DataFrame all_items), requested = trace, reported = []\<rparr>)"

text \<open>The items that a page carries, for stating what a fetch collects.\<close>

definition page_items :: "server \<Rightarrow> int \<Rightarrow> jrecord list" where
  "page_items srv p =
     (case srv p of Replied (Envelope (Some xs) tp) \<Rightarrow> xs | _ \<Rightarrow> [])"

definition replies_ok :: "server \<Rightarrow> int \<Rightarrow> bool" where
  "replies_ok srv p = (case srv p of Replied (Envelope its tp) \<Rightarrow> True | _ \<Rightarrow> False)"

definition fails :: "server \<Rightarrow> int \<Rightarrow> bool" where
  "fails srv p = (case srv p of Failed f \<Rightarrow> True | _ \<Rightarrow> False)"

section \<open>Fetching one municipality\<close>

text \<open>
  The InfoDengue endpoint answers a geocode with a JSON value: an array of records, one
  record, or anything else.
\<close>

datatype json = JArray "jrecord list" | JObject jrecord | JScalar cell

datatype reply = Down failure | Body json

type_synonym city_server = "string \<Rightarrow> reply"

text \<open>
  The shape test of \<^verbatim>\<open>fetch_municipality_data\<close> in \<^verbatim>\<open>app.py\<close>:
  \<^verbatim>\<open>pd.DataFrame(data)\<close> for a list, \<^verbatim>\<open>pd.DataFrame([data])\<close> for everything else.
  A list of one scalar gives one row with one column, which pandas labels with the number 0.
\<close>

definition normalize :: "json \<Rightarrow> table" where
  "normalize data =
     (case data of
        JArray xs \<Rightarrow> DataFrame xs
      | JObject d \<Rightarrow> DataFrame [d]
      | JScalar v \<Rightarrow> \<lparr>columns = [''0''], rows = [[v]]\<rparr>)"

definition fetch_municipality_data :: "pylib \<Rightarrow> city_server \<Rightarrow> string \<Rightarrow> table" where
  "fetch_municipality_data L srv geocode =
     (case srv geocode of
        Down f \<Rightarrow> empty_frame
      | Body data \<Rightarrow>
          (let df = normalize data
           in if \<not> is_empty df
              then (case process_dengue_data L df of Inl e \<Rightarrow> empty_frame | Inr df' \<Rightarrow> df')
              else df))"

text \<open>
  The shape test of \<^verbatim>\<open>fetch_infodengue_data\<close> in \<^verbatim>\<open>app_simple.py\<close>, where anything
  that is neither a list nor a dictionary returns \<^verbatim>\<open>pd.DataFrame()\<close> at once.
\<close>

definition simple_normalize :: "json \<Rightarrow> table" where
  "simple_normalize data =
     (case data of
        JArray xs \<Rightarrow> DataFrame xs
      | JObject d \<Rightarrow> DataFrame [d]
      | JScalar v \<Rightarrow> empty_frame)"

text \<open>
  \<^verbatim>\<open>try: df[col] = pd.to_datetime(df[col])  except: pass\<close>: without
  \<^verbatim>\<open>errors='coerce'\<close> one unreadable text makes the conversion raise, and the column
  stays as it is.
\<close>

definition unreadable :: "pylib \<Rightarrow> cell \<Rightarrow> bool" where
  "unreadable L v = (case v of Str s \<Rightarrow> date_of_str L s = None | _ \<Rightarrow> False)"

definition try_to_datetime :: "pylib \<Rightarrow> string \<Rightarrow> table \<Rightarrow> table" where
  "try_to_datetime L col df =
     (if col \<in> set (columns df)
      then (if list_ex (unreadable L) (col_vals df col) then df
            else map_col col (to_datetime L) df)
      else df)"

definition simple_fetch_infodengue_data :: "pylib \<Rightarrow> city_server \<Rightarrow> string \<Rightarrow> table" where
  "simple_fetch_infodengue_data L srv geocode =
     (case srv geocode of
        Down f \<Rightarrow> empty_frame
      | Body data \<Rightarrow>
          (case data of
             JScalar v \<Rightarrow> empty_frame
           | _ \<Rightarrow> fold (try_to_datetime L) [''data_iniSE'', ''data_ini_SE'', ''data'']
                   (simple_normalize data)))"

section \<open>The consolidated state table\<close>

text \<open>The static table \<^verbatim>\<open>GOIAS_MUNICIPALITIES\<close> of \<^verbatim>\<open>app_simple.py\<close>; accented
  letters are written by their code points.\<close>

definition GOIAS_MUNICIPALITIES :: "(int \<times> string) list" where
  "GOIAS_MUNICIPALITIES =
     [(5103403, ''Goi'' @ CHR 0xE2 # ''nia''),
      (5104402, ''An'' @ CHR 0xE1 # ''polis''),
      (5103809, ''Aparecida de Goi'' @ CHR 0xE2 # ''nia''),
      (5104304, ''Abadia de Goi'' @ CHR 0xE1 # ''s''),
      (5104700, ''Aragar'' @ CHR 0xE7 # ''as''),
      (5105002, ''Aren'' @ CHR 0xF3 # ''polis''),
      (5105101, ''Argol'' @ CHR 0xE2 # ''ndia''),
      (5105408, ''Auril'' @ CHR 0xE2 # ''ndia''),
      (5105507, ''Avelin'' @ CHR 0xF3 # ''polis''),
      (5105606, ''Baliza''),
      (5105705, ''Bom Jardim de Goi'' @ CHR 0xE1 # ''s''),
      (5105804, ''Brit'' @ CHR 0xE2 # ''nia''),
      (5106001, ''Buriti Alegre''),
      (5106100, ''Cachoeira de Goi'' @ CHR 0xE1 # ''s''),
      (5106209, ''Ca'' @ CHR 0xE7 # ''u''),
      (5106308, ''Caiap'' @ CHR 0xF4 # ''nia''),
      (5106407, ''Caldas Novas''),
      (5106506, ''Caldazinha''),
      (5106605, ''Campestre de Goi'' @ CHR 0xE1 # ''s''),
      (5106704, ''Campina'' @ CHR 0xE7 # ''u'')]"

text \<open>\<^verbatim>\<open>pd.concat(frames, ignore_index=True)\<close>: the union of the columns in order of
  first appearance, the rows of the frames one after the other, missing where a frame lacks
  a column.\<close>

definition concat_frames :: "table list \<Rightarrow> table" where
  "concat_frames ts =
     (let cols = first_seen (concat (map columns ts))
      in \<lparr>columns = cols,
          rows = concat (map (\<lambda>t. map (\<lambda>r. map (\<lambda>k. cell_at (columns t) k r) cols) (rows t)) ts)\<rparr>)"

text \<open>
  The body of the loop of \<^verbatim>\<open>fetch_all_municipalities_data\<close>: fetch, and for a frame that
  is not empty attach name and geocode and append it to \<^verbatim>\<open>all_data\<close>.
\<close>

definition attach :: "int \<Rightarrow> string \<Rightarrow> table \<Rightarrow> table" where
  "attach geocode municipality_name df =
     set_col ''municipio_geocodigo'' (\<lambda>r. Num geocode)
       (set_col ''municipio_nome'' (\<lambda>r. Str municipality_name) df)"

definition visit :: "(string \<Rightarrow> table) \<Rightarrow> int \<times> string \<Rightarrow> table list \<Rightarrow> table list" where
  "visit fetch entry all_data =
     (let df = fetch (str_int (fst entry))
      in if \<not> is_empty df then all_data @ [attach (fst entry) (snd entry) df] else all_data)"

definition consolidate :: "(int \<times> string) list \<Rightarrow> (string \<Rightarrow> table) \<Rightarrow> table" where
  "consolidate municipalities fetch =
     (let all_data = fold (visit fetch) municipalities []
      in if all_data = [] then empty_frame else concat_frames all_data)"

definition fetch_all_municipalities_data :: "pylib \<Rightarrow> city_server \<Rightarrow> table" where
  "fetch_all_municipalities_data L srv =
     consolidate GOIAS_MUNICIPALITIES (simple_fetch_infodengue_data L srv)"

section \<open>Example inputs\<close>

text \<open>A library that reads the literals of the examples and nothing else, and whose sort
  happens to keep equal keys in their order.\<close>

definition sample_lib :: pylib where
  "sample_lib =
     \<lparr>num_of_str = (\<lambda>s. if s = ''10'' then Some 10 else if s = ''12'' then Some 12 else None),
      date_of_str = (\<lambda>s. if s = ''2024-01-01'' then Some 1704067200000000000
                          else if s = ''2024-01-08'' then Some 1704672000000000000
                          else None),
      str_of_date = (\<lambda>d. if d = 1704067200000000000 then ''2024-01-01 00:00:00''
                          else if d = 1704672000000000000 then ''2024-01-08 00:00:00''
                          else ''1970-01-01 00:00:00''),
      argsort = (\<lambda>ks. sort_key ((!) ks) [0..<length ks])\<rparr>"

text \<open>Services of the paginated endpoint: seven pages; always timing out; one empty
  page; one page and then no connection.\<close>

definition paged_server :: server where
  "paged_server p =
     (if 1 \<le> p \<and> p \<le> 7 then Replied (Envelope (Some [[(''casos'', Num p)]]) (Some 7))
      else Failed (HTTPError 404))"

definition down_server :: server where
  "down_server p = Failed Timeout"

definition blank_server :: server where
  "blank_server p = Replied (Envelope (Some []) (Some 1))"

definition broken_server :: server where
  "broken_server p =
     (if p = 1 then Replied (Envelope (Some [[(''casos'', Num 10)]]) (Some 3))
      else Failed ConnectionError)"

text \<open>Two pages with one dated record each, the later week on page 1; two pages of which
  the second carries a record without its date.\<close>

definition dated_server :: server where
  "dated_server p =
     (if p = 1 then
        Replied (Envelope (Some [[(''data_iniSE'', Str ''2024-01-08''), (''casos'', Num 1)]]) (Some 2))
      else if p = 2 then
        Replied (Envelope (Some [[(''data_iniSE'', Str ''2024-01-01''), (''casos'', Num 2)]]) (Some 2))
      else Failed (HTTPError 404))"

definition gap_server :: server where
  "gap_server p =
     (if p = 1 then
        Replied (Envelope (Some [[(''data_iniSE'', Str ''2024-01-01''), (''casos'', Num 1)]]) (Some 2))
      else if p = 2 then
        Replied (Envelope (Some [[(''casos'', Num 2)]]) (Some 2))
      else Failed (HTTPError 404))"

text \<open>Frames for the processor: two records of one municipality, out of date order and
  with an unreadable count; one record without a date; a dated and an undated record; two
  records under the older date label, the later one first.\<close>

definition raw_cases :: table where
  "raw_cases =
     \<lparr>columns = [''data_iniSE'', ''casos'', ''casos_est'', ''nivel''],
      rows = [[Str ''2024-01-08'', Str ''abc'', Str ''12'', Num 2],
              [Str ''2024-01-01'', Num 10, NA, NA]]\<rparr>"

definition clean_cases :: table where
  "clean_cases =
     \<lparr>columns = [''data_iniSE'', ''casos'', ''casos_est'', ''nivel''],
      rows = [[Date 1704067200000000000, Num 10, Num 0, Num 0],
              [Date 1704672000000000000, Num 0, Num 12, Num 2]]\<rparr>"

definition undated :: table where
  "undated = \<lparr>columns = [''data_iniSE'', ''casos''], rows = [[NA, Num 1]]\<rparr>"

definition half_dated :: table where
  "half_dated =
     \<lparr>columns = [''data_iniSE'', ''casos''],
      rows = [[Str ''2024-01-01'', Str ''abc''], [NA, Num 3]]\<rparr>"

definition late_first :: table where
  "late_first =
     \<lparr>columns = [''data_ini_SE'', ''casos''],
      rows = [[Date 1704672000000000000, Num 5], [Date 1704067200000000000, Num 3]]\<rparr>"

section \<open>Properties of the alert levels\<close>

lemma map_of_levels_other:
  "level \<notin> {1, 2, 3, 4} \<Longrightarrow> map_of levels level = None"
  by (simp add: levels_def)

lemma map_of_nivel_names_other:
  "level \<notin> {1, 2, 3, 4} \<Longrightarrow> map_of nivel_names level = None"
  by (simp add: nivel_names_def)

lemma map_of_nivel_colors_other:
  "level \<notin> {1, 2, 3, 4} \<Longrightarrow> map_of nivel_colors level = None"
  by (simp add: nivel_colors_def)


text \<open>
  C8.  The level tables as the code has them.  The names are the Portuguese ones: levels 1
  to 4 are Verde, Amarelo, Laranja, Vermelho with the colours #2ecc71, #f39c12, #e67e22,
  #e74c3c in the single-record views and in the distribution charts.  Any other integer
  gets (Desconhecido, #95a5a6) in the single-record views of both applications; in the
  distribution charts it gets the colour #95a5a6 and a label made of the prefix and the
  level itself.
\<close>

theorem alert_level_mapping:
  "get_alert_level_info 1 = (''Verde'', ''#2ecc71'') \<and>
   get_alert_level_info 2 = (''Amarelo'', ''#f39c12'') \<and>
   get_alert_level_info 3 = (''Laranja'', ''#e67e22'') \<and>
   get_alert_level_info 4 = (''Vermelho'', ''#e74c3c'') \<and>
   (\<forall>k \<in> {1, 2, 3, 4}. single_view_info k = get_alert_level_info k \<and>
                        dist_info L k = get_alert_level_info k) \<and>
   (level \<notin> {1, 2, 3, 4} \<longrightarrow>
      get_alert_level_info level = (''Desconhecido'', ''#95a5a6'') \<and>
      single_view_info level = (''Desconhecido'', ''#95a5a6'') \<and>
      dist_info L level = (nivel_prefix @ str_int level, ''#95a5a6''))"
proof -
  have named: "get_alert_level_info 1 = (''Verde'', ''#2ecc71'')"
    "get_alert_level_info 2 = (''Amarelo'', ''#f39c12'')"
    "get_alert_level_info 3 = (''Laranja'', ''#e67e22'')"
    "get_alert_level_info 4 = (''Vermelho'', ''#e74c3c'')"
    by (simp_all add: get_alert_level_info_def levels_def)
  have same: "\<forall>k \<in> {1, 2, 3, 4}. single_view_info k = get_alert_level_info k \<and>
                        dist_info L k = get_alert_level_info k"
    by (simp add: single_view_info_def dist_info_def dist_label_def dist_color_def
        nivel_names_def nivel_colors_def named)
  have other: "get_alert_level_info level = (''Desconhecido'', ''#95a5a6'') \<and>
      single_view_info level = (''Desconhecido'', ''#95a5a6'') \<and>
      dist_info L level = (nivel_prefix @ str_int level, ''#95a5a6'')"
    if "level \<notin> {1, 2, 3, 4}"
    using map_of_levels_other [OF that] map_of_nivel_names_other [OF that]
      map_of_nivel_colors_other [OF that]
    by (simp add: get_alert_level_info_def single_view_info_def dist_info_def
        dist_label_def dist_color_def str_cell_def)
  show ?thesis using named same other by blast
qed

theorem alert_level_mapping_witness:
  "(9::int) \<notin> {1, 2, 3, 4} \<and>
   get_alert_level_info 1 = (''Verde'', ''#2ecc71'') \<and>
   single_view_info 4 = (''Vermelho'', ''#e74c3c'') \<and>
   dist_info sample_lib 2 = (''Amarelo'', ''#f39c12'') \<and>
   get_alert_level_info 9 = (''Desconhecido'', ''#95a5a6'') \<and>
   single_view_info 9 = (''Desconhecido'', ''#95a5a6'') \<and>
   dist_info sample_lib 9 = (CHR ''N'' # CHR 0xED # ''vel 9'', ''#95a5a6'')"
proof -
  have h: "(9::int) \<notin> {1, 2, 3, 4}" by simp
  have s9: "nivel_prefix @ str_int 9 = CHR ''N'' # CHR 0xED # ''vel 9''"
    by code_simp
  from alert_level_mapping [of sample_lib 9] h s9 show ?thesis
    by simp
qed

theorem alert_level_unknown_counterexample:
  "dist_info sample_lib 9 \<noteq> (''Unknown'', ''#95a5a6'') \<and>
   dist_info sample_lib 9 \<noteq> (''Desconhecido'', ''#95a5a6'') \<and>
   get_alert_level_info 1 \<noteq> (''Green'', ''#2ecc71'')"
  by (simp add: dist_info_def dist_label_def dist_color_def nivel_names_def nivel_colors_def
      nivel_prefix_def get_alert_level_info_def levels_def)

section \<open>The paginated fetch\<close>

lemma replies_okD:
  "replies_ok srv p \<Longrightarrow> \<exists>its tp. srv p = Replied (Envelope its tp)"
  by (auto simp: replies_ok_def split: response.splits body.splits)

lemma extend_pages_ok:
  "\<forall>p \<in> set ps. replies_ok srv p \<Longrightarrow>
   extend_pages srv ps acc tr = (Inr (acc @ concat (map (page_items srv) ps)), tr @ ps)"
proof (induction ps arbitrary: acc tr)
  case Nil
  then show ?case by simp
next
  case (Cons p ps)
  from Cons.prems obtain its tp where p: "srv p = Replied (Envelope its tp)"
    using replies_okD by force
  have items: "items_of (Envelope its tp) = Inr (page_items srv p)"
    by (simp add: items_of_def page_items_def p split: option.splits)
  from Cons.prems have rest: "\<forall>q \<in> set ps. replies_ok srv q" by simp
  show ?case
    by (simp add: p items Cons.IH [OF rest])
qed

lemma collect_pages_ok:
  assumes first: "srv 1 = Replied (Envelope its tp)"
    and rest: "\<forall>p \<in> set (later (total_pages_of tp)). replies_ok srv p"
  shows "collect_pages later srv =
     (Inr (concat (map (page_items srv) (1 # later (total_pages_of tp)))),
      1 # later (total_pages_of tp))"
proof -
  have one: "(case its of None \<Rightarrow> [] | Some xs \<Rightarrow> xs) = page_items srv 1"
    by (simp add: page_items_def first split: option.splits)
  show ?thesis
    by (simp add: collect_pages_def first extend_pages_ok [OF rest] one)
qed

lemma app_range_eq: "app_range n = [2..min n 5]"
  by (simp add: app_range_def min_def)

lemma fd_range_eq: "fd_range n = [2..n]"
  by (simp add: fd_range_def)

lemma requested_state: "requested (fetch_infodengue_state_data L srv) = snd (collect_pages app_range srv)"
  by (simp add: fetch_infodengue_state_data_def split: prod.splits sum.splits)

lemma requested_fd: "requested (fd_fetch_infodengue_data srv) = snd (collect_pages fd_range srv)"
  by (simp add: fd_fetch_infodengue_data_def split: prod.splits sum.splits exc.splits)

lemma upto_2_5: "[2..5::int] = [2, 3, 4, 5]" by code_simp
lemma upto_2_7: "[2..7::int] = [2, 3, 4, 5, 6, 7]" by code_simp


section \<open>A failed page request\<close>

lemma extend_pages_failed:
  "extend_pages srv ps acc tr = (res, tr') \<Longrightarrow> \<exists>p \<in> set tr'. fails srv p \<Longrightarrow>
   \<forall>p \<in> set tr. \<not> fails srv p \<Longrightarrow> \<exists>f. res = Inl (RequestException f)"
proof (induction ps arbitrary: acc tr)
  case Nil
  then show ?case by auto
next
  case (Cons p ps)
  show ?case
  proof (cases "srv p")
    case (Failed f)
    with Cons.prems(1) show ?thesis by auto
  next
    case (Replied b)
    then have nf: "\<not> fails srv p" by (simp add: fails_def)
    show ?thesis
    proof (cases "items_of b")
      case (Inl e)
      with Replied Cons.prems(1) have "tr' = tr @ [p]" by auto
      with Cons.prems(2,3) nf show ?thesis by auto
    next
      case (Inr its)
      with Replied Cons.prems(1)
      have "extend_pages srv ps (acc @ its) (tr @ [p]) = (res, tr')" by simp
      moreover have "\<forall>q \<in> set (tr @ [p]). \<not> fails srv q"
        using Cons.prems(3) nf by auto
      ultimately show ?thesis using Cons.IH Cons.prems(2) by blast
    qed
  qed
qed

lemma collect_pages_failed:
  assumes "\<exists>p \<in> set (snd (collect_pages later srv)). fails srv p"
  shows "\<exists>f. fst (collect_pages later srv) = Inl (RequestException f)"
proof (cases "srv 1")
  case (Failed f)
  then show ?thesis by (simp add: collect_pages_def)
next
  case (Replied b)
  then have nf: "\<forall>q \<in> set [1]. \<not> fails srv q" by (simp add: fails_def)
  show ?thesis
  proof (cases b)
    case NotAnObject
    with Replied assms nf show ?thesis by (simp add: collect_pages_def)
  next
    case (Envelope its tp)
    obtain res tr' where e: "extend_pages srv (later (total_pages_of tp))
        (case its of None \<Rightarrow> [] | Some xs \<Rightarrow> xs) [1] = (res, tr')"
      by (cases "extend_pages srv (later (total_pages_of tp))
        (case its of None \<Rightarrow> [] | Some xs \<Rightarrow> xs) [1]") auto
    have c: "collect_pages later srv = (res, tr')"
      by (simp add: collect_pages_def Replied Envelope e)
    from assms c have "\<exists>p \<in> set tr'. fails srv p" by simp
    from extend_pages_failed [OF e this nf] c show ?thesis by simp
  qed
qed

text \<open>
  C4.  If a page that the fetch requested failed in transport (time-out, connection error,
  status outside 2xx), the fetch returns the empty frame, whatever the earlier pages
  delivered, and no exception reaches the caller.  The failure is reported to the log
  (and in \<^verbatim>\<open>app.py\<close> as a warning on the page); the value returned is the one that a
  successful fetch without items returns.
\<close>

theorem failed_fetch_is_empty:
  "((\<exists>p \<in> set (requested (fetch_infodengue_state_data L srv)). fails srv p) \<longrightarrow>
      returned (fetch_infodengue_state_data L srv) = empty_frame \<and>
      (\<exists>f. reported (fetch_infodengue_state_data L srv) =
             [LogError (RequestException f), StWarning (RequestException f)])) \<and>
   ((\<exists>p \<in> set (requested (fd_fetch_infodengue_data srv)). fails srv p) \<longrightarrow>
      returned (fd_fetch_infodengue_data srv) = Inr empty_frame \<and>
      (\<exists>f. reported (fd_fetch_infodengue_data srv) = [LogError (RequestException f)]))"
proof (intro conjI impI)
  assume a: "\<exists>p \<in> set (requested (fetch_infodengue_state_data L srv)). fails srv p"
  then have "\<exists>p \<in> set (snd (collect_pages app_range srv)). fails srv p"
    by (simp add: requested_state)
  from collect_pages_failed [OF this] obtain f
    where f: "fst (collect_pages app_range srv) = Inl (RequestException f)" by blast
  obtain tr where c: "collect_pages app_range srv = (Inl (RequestException f), tr)"
    using f by (cases "collect_pages app_range srv") auto
  show "returned (fetch_infodengue_state_data L srv) = empty_frame"
    by (simp add: fetch_infodengue_state_data_def c and_then_def)
  show "\<exists>f. reported (fetch_infodengue_state_data L srv) =
             [LogError (RequestException f), StWarning (RequestException f)]"
    by (simp add: fetch_infodengue_state_data_def c and_then_def)
next
  assume a: "\<exists>p \<in> set (requested (fd_fetch_infodengue_data srv)). fails srv p"
  then have "\<exists>p \<in> set (snd (collect_pages fd_range srv)). fails srv p"
    by (simp add: requested_fd)
  from collect_pages_failed [OF this] obtain f
    where f: "fst (collect_pages fd_range srv) = Inl (RequestException f)" by blast
  obtain tr where c: "collect_pages fd_range srv = (Inl (RequestException f), tr)"
    using f by (cases "collect_pages fd_range srv") auto
  show "returned (fd_fetch_infodengue_data srv) = Inr empty_frame"
    by (simp add: fd_fetch_infodengue_data_def c)
  show "\<exists>f. reported (fd_fetch_infodengue_data srv) = [LogError (RequestException f)]"
    by (simp add: fd_fetch_infodengue_data_def c)
qed

lemma broken_collect_app:
  "collect_pages app_range broken_server = (Inl (RequestException ConnectionError), [1, 2])"
  by (simp add: collect_pages_def broken_server_def total_pages_of_def app_range_def
      upto.simps items_of_def)

lemma broken_collect_fd:
  "collect_pages fd_range broken_server = (Inl (RequestException ConnectionError), [1, 2])"
  by (simp add: collect_pages_def broken_server_def total_pages_of_def fd_range_def
      upto.simps items_of_def)

theorem failed_fetch_is_empty_witness:
  "fails broken_server 2 \<and>
   requested (fetch_infodengue_state_data sample_lib broken_server) = [1, 2] \<and>
   requested (fd_fetch_infodengue_data broken_server) = [1, 2] \<and>
   page_items broken_server 1 = [[(''casos'', Num 10)]] \<and>
   returned (fetch_infodengue_state_data sample_lib broken_server) = empty_frame \<and>
   returned (fd_fetch_infodengue_data broken_server) = Inr empty_frame"
proof -
  have f2: "fails broken_server 2" by (simp add: fails_def broken_server_def)
  have ra: "requested (fetch_infodengue_state_data sample_lib broken_server) = [1, 2]"
    by (simp add: requested_state broken_collect_app)
  have rf: "requested (fd_fetch_infodengue_data broken_server) = [1, 2]"
    by (simp add: requested_fd broken_collect_fd)
  have p1: "page_items broken_server 1 = [[(''casos'', Num 10)]]"
    by (simp add: page_items_def broken_server_def)
  from failed_fetch_is_empty [of sample_lib broken_server] f2 ra rf p1 show ?thesis
    by simp
qed

theorem failed_fetch_not_distinct_counterexample:
  "fails down_server 1 \<and> replies_ok blank_server 1 \<and>
   requested (fetch_infodengue_state_data sample_lib blank_server) = [1] \<and>
   returned (fetch_infodengue_state_data sample_lib down_server) =
     returned (fetch_infodengue_state_data sample_lib blank_server) \<and>
   returned (fd_fetch_infodengue_data down_server) =
     returned (fd_fetch_infodengue_data blank_server)"
  by (simp add: fails_def replies_ok_def down_server_def blank_server_def
      fetch_infodengue_state_data_def fd_fetch_infodengue_data_def collect_pages_def
      total_pages_of_def app_range_def fd_range_def upto.simps and_then_def DataFrame_def
      first_seen_def is_empty_def empty_frame_def)

section \<open>Frames: reading cells after an update\<close>

lemma cell_at_map: "k \<in> set cols \<Longrightarrow> cell_at cols k (map f cols) = f k"
  by (simp add: cell_at_def map_of_zip_map)

lemma cell_at_notin: "k \<notin> set cols \<Longrightarrow> cell_at cols k r = NA"
proof -
  assume "k \<notin> set cols"
  then have "map_of (zip cols r) k = None"
    by (metis map_of_eq_None_iff set_zip_leftD surjective_pairing imageE)
  then show ?thesis by (simp add: cell_at_def)
qed

lemma columns_map_col: "c \<in> set (columns t) \<Longrightarrow> columns (map_col c g t) = columns t"
  by (simp add: map_col_def set_col_def Let_def)

lemma rows_map_col:
  "c \<in> set (columns t) \<Longrightarrow>
   rows (map_col c g t) =
     map (\<lambda>r. map (\<lambda>k. if k = c then g (cell_at (columns t) c r) else cell_at (columns t) k r)
       (columns t)) (rows t)"
  by (simp add: map_col_def set_col_def Let_def)

lemma columns_coerce_cols: "columns (coerce_cols conv cs t) = columns t"
  unfolding coerce_cols_def
  by (induction cs arbitrary: t) (simp_all add: columns_map_col)

lemma rows_coerce_cols:
  "rows (coerce_cols conv cs t) = map (coerce_row conv cs (columns t)) (rows t)"
  unfolding coerce_cols_def coerce_row_def
proof (induction cs arbitrary: t)
  case Nil
  then show ?case by simp
next
  case (Cons c cs)
  show ?case
  proof (cases "c \<in> set (columns t)")
    case True
    have cols: "columns (map_col c conv t) = columns t"
      using True by (rule columns_map_col)
    show ?thesis
      using Cons.IH [of "map_col c conv t"] True
      unfolding cols by (simp add: rows_map_col o_def)
  next
    case False
    then show ?thesis using Cons.IH [of t] by simp
  qed
qed

lemma cell_at_coerce_row:
  "distinct cs \<Longrightarrow>
   cell_at cols k (coerce_row conv cs cols r) =
     (if k \<in> set cs \<and> k \<in> set cols then conv (cell_at cols k r) else cell_at cols k r)"
  unfolding coerce_row_def
proof (induction cs arbitrary: r)
  case Nil
  then show ?case by simp
next
  case (Cons c cs)
  let ?r1 = "map (\<lambda>k. if k = c then conv (cell_at cols c r) else cell_at cols k r) cols"
  show ?case
  proof (cases "c \<in> set cols")
    case True
    have ih: "cell_at cols k (fold (\<lambda>c r. if c \<in> set cols
                  then map (\<lambda>k. if k = c then conv (cell_at cols c r) else cell_at cols k r) cols
                  else r) cs ?r1) =
        (if k \<in> set cs \<and> k \<in> set cols then conv (cell_at cols k ?r1) else cell_at cols k ?r1)"
      using Cons.IH [of ?r1] Cons.prems by simp
    show ?thesis
    proof (cases "k \<in> set cols")
      case kin: True
      then show ?thesis using True ih Cons.prems
        by (auto simp: cell_at_map)
    next
      case kout: False
      then show ?thesis using True ih
        by (auto simp: cell_at_notin)
    qed
  next
    case False
    then show ?thesis using Cons.IH [of r] Cons.prems by auto
  qed
qed

lemma distinct_numeric_cols: "distinct numeric_cols"
  by (simp add: numeric_cols_def)

lemma distinct_fd_numeric_cols: "distinct fd_numeric_cols"
  by (simp add: fd_numeric_cols_def)

lemma coerce_cols_more: "table.more (coerce_cols conv cs t) = table.more t"
  unfolding coerce_cols_def
  by (induction cs arbitrary: t) (simp_all add: map_col_def set_col_def Let_def)

lemma fillna0_coerce_coerce:
  assumes "distinct ns" "distinct ds"
  shows "fillna0 (coerce_cols (to_datetime L) ds (coerce_cols (to_numeric L) ns t)) =
         cleaned ns ds L t"
proof (rule table.equality)
  let ?t1 = "coerce_cols (to_numeric L) ns t"
  let ?t2 = "coerce_cols (to_datetime L) ds ?t1"
  have cols: "columns ?t2 = columns t"
    by (simp add: columns_coerce_cols)
  show "columns (fillna0 ?t2) = columns (cleaned ns ds L t)"
    by (simp add: fillna0_def cleaned_def cols)
  show "table.more (fillna0 ?t2) = table.more (cleaned ns ds L t)"
    by simp
  have r2: "rows ?t2 =
      map (\<lambda>r. coerce_row (to_datetime L) ds (columns t)
                 (coerce_row (to_numeric L) ns (columns t) r)) (rows t)"
    by (simp add: rows_coerce_cols columns_coerce_cols o_def)
  have cellwise: "fill0 (cell_at (columns t) k
            (coerce_row (to_datetime L) ds (columns t)
               (coerce_row (to_numeric L) ns (columns t) r))) =
        clean_cell ns ds L k (cell_at (columns t) k r)"
    if "k \<in> set (columns t)" for k r
    using that assms by (simp add: cell_at_coerce_row clean_cell_def)
  show "rows (fillna0 ?t2) = rows (cleaned ns ds L t)"
    unfolding fillna0_def cleaned_def clean_row_def
    by (simp add: cols r2 o_def cellwise cong: map_cong)
qed

lemma process_dengue_data_closed:
  "process_dengue_data L t =
     (if is_empty t then Inr t
      else if ''data_iniSE'' \<in> set (columns t)
        then sort_values L ''data_iniSE'' (cleaned numeric_cols [''data_iniSE'', ''data_ini_SE''] L t)
      else if ''data_ini_SE'' \<in> set (columns t)
        then sort_values L ''data_ini_SE'' (cleaned numeric_cols [''data_iniSE'', ''data_ini_SE''] L t)
      else Inr (cleaned numeric_cols [''data_iniSE'', ''data_ini_SE''] L t))"
proof -
  have d: "distinct [''data_iniSE'', ''data_ini_SE'']" by simp
  have c: "columns (cleaned numeric_cols [''data_iniSE'', ''data_ini_SE''] L t) = columns t"
    by (simp add: cleaned_def)
  show ?thesis
    unfolding process_dengue_data_def Let_def
      fillna0_coerce_coerce [OF distinct_numeric_cols d] c
    by simp
qed

lemma fd_process_dengue_data_closed:
  "fd_process_dengue_data L t =
     (if is_empty t then Inr t
      else if ''data_iniSE'' \<in> set (columns t)
        then sort_values L ''data_iniSE'' (cleaned fd_numeric_cols [''data_iniSE''] L t)
      else Inr (cleaned fd_numeric_cols [''data_iniSE''] L t))"
proof -
  have d: "distinct [''data_iniSE'']" by simp
  have c: "columns (cleaned fd_numeric_cols [''data_iniSE''] L t) = columns t"
    by (simp add: cleaned_def)
  have step: "(if ''data_iniSE'' \<in> set (columns df1)
                   then map_col ''data_iniSE'' (to_datetime L) df1 else df1) =
        coerce_cols (to_datetime L) [''data_iniSE''] df1" for df1
    by (simp add: coerce_cols_def)
  show ?thesis
    unfolding fd_process_dengue_data_def Let_def step
      fillna0_coerce_coerce [OF distinct_fd_numeric_cols d] c
    by simp
qed

section \<open>The library sort\<close>

lemma argsort_set:
  assumes "sorts L"
  shows "set (argsort L ks) = {0..<length ks}"
proof -
  from assms have "mset (argsort L ks) = mset [0..<length ks]" by (simp add: sorts_def)
  then have "set (argsort L ks) = set [0..<length ks]" by (rule mset_eq_setD)
  then show ?thesis by simp
qed

lemma lib_sort_unfiltered:
  assumes "sorts L"
  shows "lib_sort L key xs = map ((!) xs) (argsort L (map key xs))"
proof -
  have "filter (\<lambda>i. i < length xs) (argsort L (map key xs)) = argsort L (map key xs)"
    using argsort_set [OF assms, of "map key xs"] by (intro filter_True) auto
  then show ?thesis by (simp add: lib_sort_def)
qed

lemma mset_lib_sort:
  assumes "sorts L"
  shows "mset (lib_sort L key xs) = mset xs"
proof -
  from assms have "mset (argsort L (map key xs)) = mset [0..<length xs]"
    by (simp add: sorts_def)
  then have "mset (map ((!) xs) (argsort L (map key xs))) = mset (map ((!) xs) [0..<length xs])"
    by (simp only: mset_map)
  then show ?thesis by (simp add: lib_sort_unfiltered [OF assms] map_nth)
qed

lemma set_lib_sort: "sorts L \<Longrightarrow> set (lib_sort L key xs) = set xs"
  by (rule mset_eq_setD) (rule mset_lib_sort)

lemma length_lib_sort: "sorts L \<Longrightarrow> length (lib_sort L key xs) = length xs"
  by (rule mset_eq_length) (rule mset_lib_sort)

lemma sorted_lib_sort:
  assumes "sorts L"
  shows "sorted (map key (lib_sort L key xs))"
proof -
  have "map key (map ((!) xs) (argsort L (map key xs))) =
      map ((!) (map key xs)) (argsort L (map key xs))"
    unfolding map_map
  proof (rule map_cong [OF refl])
    fix i assume "i \<in> set (argsort L (map key xs))"
    then have "i < length xs" using argsort_set [OF assms, of "map key xs"] by simp
    then show "(key \<circ> (!) xs) i = map key xs ! i" by simp
  qed
  moreover from assms have "sorted (map ((!) (map key xs)) (argsort L (map key xs)))"
    by (simp add: sorts_def)
  ultimately show ?thesis by (simp only: lib_sort_unfiltered [OF assms])
qed

text \<open>Keys that ascend without a tie leave the sort no choice.\<close>

lemma lib_sort_fixed:
  assumes L: "sorts L" and s: "sorted (map key xs)" and d: "distinct (map key xs)"
  shows "lib_sort L key xs = xs"
proof -
  let ?ys = "lib_sort L key xs"
  have m: "mset ?ys = mset xs" by (rule mset_lib_sort [OF L])
  then have mk: "mset (map key ?ys) = mset (map key xs)" by simp
  have "map key ?ys = map key xs"
  proof (rule sorted_distinct_set_unique)
    show "sorted (map key ?ys)" by (rule sorted_lib_sort [OF L])
    show "distinct (map key ?ys)" using mk d by (metis mset_eq_imp_distinct_iff)
    show "sorted (map key xs)" by (rule s)
    show "distinct (map key xs)" by (rule d)
    show "set (map key ?ys) = set (map key xs)" using mk by (rule mset_eq_setD)
  qed
  moreover have "inj_on key (set ?ys \<union> set xs)"
    using d set_lib_sort [OF L, of key xs] by (simp add: distinct_map)
  ultimately show ?thesis by (simp add: inj_on_map_eq_map)
qed

lemma sorts_sample_lib: "sorts sample_lib"
  by (simp add: sorts_def sample_lib_def sorted_sort_key)

section \<open>The data processor in closed form\<close>

lemma process_dengue_data_with:
  "process_dengue_data L t =
     process_with numeric_cols [''data_iniSE'', ''data_ini_SE''] [''data_iniSE'', ''data_ini_SE''] L t"
  by (simp add: process_dengue_data_closed process_with_def sort_label_def)

lemma fd_process_dengue_data_with:
  "fd_process_dengue_data L t =
     process_with fd_numeric_cols [''data_iniSE''] [''data_iniSE''] L t"
  by (simp add: fd_process_dengue_data_closed process_with_def sort_label_def)

lemma columns_cleaned [simp]: "columns (cleaned ncols dcols L t) = columns t"
  by (simp add: cleaned_def)

lemma rows_cleaned:
  "rows (cleaned ncols dcols L t) = map (clean_row ncols dcols L (columns t)) (rows t)"
  by (simp add: cleaned_def)

lemma columns_sorted_by [simp]: "columns (sorted_by L c t) = columns t"
  by (simp add: sorted_by_def)

lemma rows_sorted_by:
  "rows (sorted_by L c t) = lib_sort L (\<lambda>r. sort_rank (cell_at (columns t) c r)) (rows t)"
  by (simp add: sorted_by_def)

lemma cell_at_clean_row:
  "k \<in> set cols \<Longrightarrow>
   cell_at cols k (clean_row ncols dcols L cols r) = clean_cell ncols dcols L k (cell_at cols k r)"
  by (simp add: clean_row_def cell_at_map)

lemma col_vals_cleaned:
  "c \<in> set (columns t) \<Longrightarrow>
   col_vals (cleaned ncols dcols L t) c = map (clean_cell ncols dcols L c) (col_vals t c)"
  by (simp add: col_vals_def rows_cleaned cell_at_clean_row)

lemma sort_label_Some: "sort_label scols t = Some c \<Longrightarrow> c \<in> set scols \<and> c \<in> set (columns t)"
  by (auto simp: sort_label_def find_Some_iff)

lemma sort_label_columns: "columns t' = columns t \<Longrightarrow> sort_label scols t' = sort_label scols t"
  by (simp add: sort_label_def)

lemma sort_label_empty: "columns t = [] \<Longrightarrow> sort_label scols t = None"
  by (simp add: sort_label_def find_None_iff)

lemma sort_values_sorted_by:
  "c \<in> set (columns t) \<Longrightarrow>
   sort_values L c t = (if comparable (col_vals t c) then Inr (sorted_by L c t) else Inl TypeError)"
  by (simp add: sort_values_def sorted_by_def)

lemma process_with_unfold:
  "process_with ncols dcols scols L t =
     (if is_empty t then Inr t
      else case sort_label scols t of
             None \<Rightarrow> Inr (cleaned ncols dcols L t)
           | Some c \<Rightarrow>
               if comparable (col_vals (cleaned ncols dcols L t) c)
               then Inr (sorted_by L c (cleaned ncols dcols L t)) else Inl TypeError)"
proof (cases "sort_label scols t")
  case None
  then show ?thesis by (simp add: process_with_def)
next
  case (Some c)
  then have "c \<in> set (columns (cleaned ncols dcols L t))"
    using sort_label_Some by simp
  from sort_values_sorted_by [OF this] Some show ?thesis
    by (simp add: process_with_def)
qed

section \<open>Cells of the cleaned frame\<close>

lemma to_datetime_range: "to_datetime L v = NA \<or> (\<exists>d. to_datetime L v = Date d)"
  by (cases v) (simp_all add: to_datetime_def split: option.splits)

lemma to_numeric_range: "to_numeric L v = NA \<or> (\<exists>n. to_numeric L v = Num n)"
  by (cases v) (simp_all add: to_numeric_def split: option.splits)

lemma fill0_idem: "fill0 (fill0 v) = fill0 v"
  by (cases v) (simp_all add: fill0_def)

lemma coerced_or_zero_cases:
  "(\<exists>n. coerced_or_zero L v = Num n) \<and>
   (to_numeric L v = NA \<longrightarrow> coerced_or_zero L v = Num 0) \<and>
   (to_numeric L v \<noteq> NA \<longrightarrow> coerced_or_zero L v = to_numeric L v)"
  using to_numeric_range [of L v] by (auto simp: coerced_or_zero_def)

lemma clean_cell_numeric:
  "k \<in> set ncols \<Longrightarrow> k \<notin> set dcols \<Longrightarrow> clean_cell ncols dcols L k v = coerced_or_zero L v"
  by (simp add: clean_cell_def coerced_or_zero_def fill0_def split: cell.splits)

lemma clean_cell_dated:
  "k \<in> set dcols \<Longrightarrow> k \<notin> set ncols \<Longrightarrow>
   clean_cell ncols dcols L k v = (if to_datetime L v = NA then Num 0 else to_datetime L v)"
  using to_datetime_range [of L v] by (auto simp: clean_cell_def fill0_def)

lemma clean_cell_date:
  assumes "k \<in> set dcols" "k \<notin> set ncols" "to_datetime L v \<noteq> NA"
  shows "\<exists>d. clean_cell ncols dcols L k v = Date d"
  using to_datetime_range [of L v] assms by (auto simp: clean_cell_dated)

lemma clean_cell_idem:
  assumes "k \<in> set dcols \<longrightarrow> k \<notin> set ncols \<and> to_datetime L v \<noteq> NA"
  shows "clean_cell ncols dcols L k (clean_cell ncols dcols L k v) = clean_cell ncols dcols L k v"
proof (cases "k \<in> set dcols")
  case True
  with assms have n: "k \<notin> set ncols" and d: "to_datetime L v \<noteq> NA" by simp_all
  from clean_cell_date [OF True n d] obtain d' where
    c: "clean_cell ncols dcols L k v = Date d'" by blast
  have "clean_cell ncols dcols L k (Date d') = Date d'"
    using True n by (simp add: clean_cell_def fill0_def to_datetime_def)
  with c show ?thesis by simp
next
  case False
  show ?thesis
  proof (cases "k \<in> set ncols")
    case True
    from to_numeric_range [of L v] obtain n where
      c: "clean_cell ncols dcols L k v = Num n"
      using True False by (auto simp: clean_cell_def fill0_def)
    have "clean_cell ncols dcols L k (Num n) = Num n"
      using True False by (simp add: clean_cell_def fill0_def to_numeric_def)
    with c show ?thesis by simp
  next
    case nn: False
    with False show ?thesis by (simp add: clean_cell_def fill0_idem)
  qed
qed

section \<open>When the sort raises\<close>

lemma comparable_card:
  "comparable vs = (card (kind ` {v \<in> set vs. v \<noteq> NA}) \<le> 1)"
proof -
  have "set (map kind (filter (\<lambda>v. v \<noteq> NA) vs)) = kind ` {v \<in> set vs. v \<noteq> NA}" by auto
  then show ?thesis
    by (simp only: comparable_def length_remdups_card_conv)
qed

lemma comparable_same_kind:
  assumes "\<forall>v \<in> set vs. kind v = k"
  shows "comparable vs"
proof -
  have "kind ` {v \<in> set vs. v \<noteq> NA} \<subseteq> {k}" using assms by auto
  then have "card (kind ` {v \<in> set vs. v \<noteq> NA}) \<le> card {k}"
    by (intro card_mono) auto
  then show ?thesis by (simp add: comparable_card)
qed

lemma comparable_dates:
  assumes "\<forall>v \<in> set vs. \<exists>d. v = Date d"
  shows "comparable vs"
proof (rule comparable_same_kind)
  show "\<forall>v \<in> set vs. kind v = 3" using assms by (auto simp: kind_def)
qed

lemma comparable_subset:
  assumes "comparable vs" "set ws \<subseteq> set vs"
  shows "comparable ws"
proof -
  have "kind ` {v \<in> set ws. v \<noteq> NA} \<subseteq> kind ` {v \<in> set vs. v \<noteq> NA}"
    using assms(2) by auto
  then have "card (kind ` {v \<in> set ws. v \<noteq> NA}) \<le> card (kind ` {v \<in> set vs. v \<noteq> NA})"
    by (intro card_mono) auto
  with assms(1) show ?thesis by (simp add: comparable_card)
qed

lemma not_comparable_mixed:
  assumes "Num a \<in> set vs" "Date b \<in> set vs"
  shows "\<not> comparable vs"
proof -
  have "{1, 3} \<subseteq> kind ` {v \<in> set vs. v \<noteq> NA}"
  proof -
    have "kind (Num a) \<in> kind ` {v \<in> set vs. v \<noteq> NA}"
      using assms(1) by (intro imageI) simp
    moreover have "kind (Date b) \<in> kind ` {v \<in> set vs. v \<noteq> NA}"
      using assms(2) by (intro imageI) simp
    ultimately show ?thesis by (simp add: kind_def)
  qed
  then have "card {1::nat, 3} \<le> card (kind ` {v \<in> set vs. v \<noteq> NA})"
    by (intro card_mono) auto
  then show ?thesis by (simp add: comparable_card)
qed

lemma comparable_cleaned_dates:
  assumes k: "k \<in> set dcols" "k \<notin> set ncols"
  shows "comparable (map (clean_cell ncols dcols L k) vs) =
         (list_all (\<lambda>v. to_datetime L v = NA) vs \<or> list_all (\<lambda>v. to_datetime L v \<noteq> NA) vs)"
proof
  assume c: "comparable (map (clean_cell ncols dcols L k) vs)"
  show "list_all (\<lambda>v. to_datetime L v = NA) vs \<or> list_all (\<lambda>v. to_datetime L v \<noteq> NA) vs"
  proof (rule ccontr)
    assume "\<not> ?thesis"
    then obtain v1 v2 where v1: "v1 \<in> set vs" "to_datetime L v1 \<noteq> NA"
      and v2: "v2 \<in> set vs" "to_datetime L v2 = NA"
      by (auto simp: list_all_iff)
    from clean_cell_date [OF k v1(2)] obtain d where "clean_cell ncols dcols L k v1 = Date d"
      by blast
    with v1(1) have "Date d \<in> set (map (clean_cell ncols dcols L k) vs)" by force
    moreover have "clean_cell ncols dcols L k v2 = Num 0"
      using k v2(2) by (simp add: clean_cell_dated)
    with v2(1) have "Num 0 \<in> set (map (clean_cell ncols dcols L k) vs)" by force
    ultimately show False using not_comparable_mixed c by blast
  qed
next
  assume "list_all (\<lambda>v. to_datetime L v = NA) vs \<or> list_all (\<lambda>v. to_datetime L v \<noteq> NA) vs"
  then show "comparable (map (clean_cell ncols dcols L k) vs)"
  proof
    assume "list_all (\<lambda>v. to_datetime L v = NA) vs"
    then have "\<forall>v \<in> set (map (clean_cell ncols dcols L k) vs). kind v = 1"
      using k by (auto simp: list_all_iff clean_cell_dated kind_def)
    then show ?thesis by (rule comparable_same_kind)
  next
    assume a: "list_all (\<lambda>v. to_datetime L v \<noteq> NA) vs"
    have "\<forall>v \<in> set (map (clean_cell ncols dcols L k) vs). \<exists>d. v = Date d"
    proof
      fix v assume "v \<in> set (map (clean_cell ncols dcols L k) vs)"
      then obtain w where w: "w \<in> set vs" "v = clean_cell ncols dcols L k w" by auto
      with a have "to_datetime L w \<noteq> NA" by (simp add: list_all_iff)
      from clean_cell_date [OF k this] w(2) show "\<exists>d. v = Date d" by simp
    qed
    then show ?thesis by (rule comparable_dates)
  qed
qed

text \<open>
  The processor returns exactly on the frames whose sort column is uniform; on the others
  the sort meets a timestamp beside a filled 0 and raises.
\<close>

lemma process_with_uniform:
  assumes sub: "set scols \<subseteq> set dcols" and disj: "set ncols \<inter> set dcols = {}"
  shows "process_with ncols dcols scols L t =
     (if is_empty t then Inr t
      else if \<not> dates_uniform L scols t then Inl TypeError
      else case sort_label scols t of
             None \<Rightarrow> Inr (cleaned ncols dcols L t)
           | Some c \<Rightarrow> Inr (sorted_by L c (cleaned ncols dcols L t)))"
proof (cases "sort_label scols t")
  case None
  then show ?thesis by (simp add: process_with_unfold dates_uniform_def)
next
  case (Some c)
  from sort_label_Some [OF Some] sub disj
  have c: "c \<in> set (columns t)" "c \<in> set dcols" "c \<notin> set ncols" by auto
  have "comparable (col_vals (cleaned ncols dcols L t) c) = dates_uniform L scols t"
    using Some by (simp add: col_vals_cleaned [OF c(1)] comparable_cleaned_dates [OF c(2,3)]
        dates_uniform_def)
  with Some show ?thesis by (simp add: process_with_unfold)
qed

section \<open>Numeric fields\<close>

lemma process_with_numeric:
  assumes L: "sorts L"
    and u: "dates_uniform L scols t"
    and sub: "set scols \<subseteq> set dcols" and disj: "set ncols \<inter> set dcols = {}"
  shows "\<exists>t'. process_with ncols dcols scols L t = Inr t' \<and> columns t' = columns t \<and>
    (\<exists>f. mset (rows t') = mset (map f (rows t)) \<and>
         (\<forall>r c. c \<in> set ncols \<longrightarrow> c \<in> set (columns t) \<longrightarrow>
            cell_at (columns t) c (f r) = coerced_or_zero L (cell_at (columns t) c r)))"
proof -
  let ?f = "clean_row ncols dcols L (columns t)"
  have v: "\<forall>r c. c \<in> set ncols \<longrightarrow> c \<in> set (columns t) \<longrightarrow>
            cell_at (columns t) c (?f r) = coerced_or_zero L (cell_at (columns t) c r)"
  proof (intro allI impI)
    fix r c assume c: "c \<in> set ncols" "c \<in> set (columns t)"
    with disj have "c \<notin> set dcols" by auto
    with c show "cell_at (columns t) c (?f r) = coerced_or_zero L (cell_at (columns t) c r)"
      by (simp add: cell_at_clean_row clean_cell_numeric)
  qed
  show ?thesis
  proof (cases "is_empty t")
    case True
    then have p: "process_with ncols dcols scols L t = Inr t"
      by (simp add: process_with_def)
    show ?thesis
    proof (cases "rows t = []")
      case True
      then have "mset (rows t) = mset (map ?f (rows t))" by simp
      with p v show ?thesis by blast
    next
      case False
      with \<open>is_empty t\<close> have "columns t = []" by (simp add: is_empty_def)
      then have "\<forall>r c. c \<in> set ncols \<longrightarrow> c \<in> set (columns t) \<longrightarrow>
            cell_at (columns t) c (id r) = coerced_or_zero L (cell_at (columns t) c r)"
        by simp
      moreover have "mset (rows t) = mset (map id (rows t))" by simp
      ultimately show ?thesis using p by blast
    qed
  next
    case False
    show ?thesis
    proof (cases "sort_label scols t")
      case None
      with False u have "process_with ncols dcols scols L t = Inr (cleaned ncols dcols L t)"
        by (simp add: process_with_uniform [OF sub disj])
      moreover have "mset (rows (cleaned ncols dcols L t)) = mset (map ?f (rows t))"
        by (simp add: rows_cleaned)
      ultimately show ?thesis using v by (intro exI conjI) simp_all
    next
      case (Some c)
      with False u have "process_with ncols dcols scols L t =
          Inr (sorted_by L c (cleaned ncols dcols L t))"
        by (simp add: process_with_uniform [OF sub disj])
      moreover have "mset (rows (sorted_by L c (cleaned ncols dcols L t))) = mset (map ?f (rows t))"
        by (simp add: rows_sorted_by mset_lib_sort [OF L] rows_cleaned)
      ultimately show ?thesis using v by (intro exI conjI) simp_all
    qed
  qed
qed

lemma numeric_not_date:
  "set numeric_cols \<inter> set [''data_iniSE'', ''data_ini_SE''] = {}"
  by (simp add: numeric_cols_def)

lemma fd_numeric_not_date:
  "set fd_numeric_cols \<inter> set [''data_iniSE''] = {}"
  by (simp add: fd_numeric_cols_def)

lemma process_with_raises:
  assumes "\<not> is_empty t" "\<not> dates_uniform L scols t"
    and sub: "set scols \<subseteq> set dcols" and disj: "set ncols \<inter> set dcols = {}"
  shows "process_with ncols dcols scols L t = Inl TypeError"
  using assms(1,2) by (simp add: process_with_uniform [OF sub disj])

text \<open>
  C5.  A processor returns a frame exactly when the date column it sorts by does not mix
  readable dates with missing or unreadable ones (otherwise the sort raises
  \<^verbatim>\<open>TypeError\<close> and there is no processed table).  When it returns, the rows of the
  frame are the raw rows, each cleaned (and reordered by the sort), and in every column of
  the processor's list of numeric fields that the input has, the cleaned cell is a number:
  the raw value as \<^verbatim>\<open>pd.to_numeric\<close> reads it, and zero where the raw value is missing or
  fails the conversion.
\<close>

theorem numeric_fields_coerced:
  assumes L: "sorts L"
  shows
   "(dates_uniform L [''data_iniSE'', ''data_ini_SE''] t \<longrightarrow>
      (\<exists>t'. process_dengue_data L t = Inr t' \<and> columns t' = columns t \<and>
         (\<exists>f. mset (rows t') = mset (map f (rows t)) \<and>
            (\<forall>r c. c \<in> set numeric_cols \<longrightarrow> c \<in> set (columns t) \<longrightarrow>
               (\<exists>n. cell_at (columns t) c (f r) = Num n) \<and>
               (to_numeric L (cell_at (columns t) c r) = NA \<longrightarrow>
                  cell_at (columns t) c (f r) = Num 0) \<and>
               (to_numeric L (cell_at (columns t) c r) \<noteq> NA \<longrightarrow>
                  cell_at (columns t) c (f r) = to_numeric L (cell_at (columns t) c r)))))) \<and>
    (dates_uniform L [''data_iniSE''] t \<longrightarrow>
      (\<exists>t'. fd_process_dengue_data L t = Inr t' \<and> columns t' = columns t \<and>
         (\<exists>f. mset (rows t') = mset (map f (rows t)) \<and>
            (\<forall>r c. c \<in> set fd_numeric_cols \<longrightarrow> c \<in> set (columns t) \<longrightarrow>
               (\<exists>n. cell_at (columns t) c (f r) = Num n) \<and>
               (to_numeric L (cell_at (columns t) c r) = NA \<longrightarrow>
                  cell_at (columns t) c (f r) = Num 0) \<and>
               (to_numeric L (cell_at (columns t) c r) \<noteq> NA \<longrightarrow>
                  cell_at (columns t) c (f r) = to_numeric L (cell_at (columns t) c r)))))) \<and>
    (\<not> is_empty t \<longrightarrow> \<not> dates_uniform L [''data_iniSE'', ''data_ini_SE''] t \<longrightarrow>
       process_dengue_data L t = Inl TypeError) \<and>
    (\<not> is_empty t \<longrightarrow> \<not> dates_uniform L [''data_iniSE''] t \<longrightarrow>
       fd_process_dengue_data L t = Inl TypeError)"
proof -
  have widen: "\<exists>t'. p = Inr t' \<and> columns t' = columns t \<and>
         (\<exists>f. mset (rows t') = mset (map f (rows t)) \<and>
            (\<forall>r c. c \<in> set ncols \<longrightarrow> c \<in> set (columns t) \<longrightarrow>
               (\<exists>n. cell_at (columns t) c (f r) = Num n) \<and>
               (to_numeric L (cell_at (columns t) c r) = NA \<longrightarrow>
                  cell_at (columns t) c (f r) = Num 0) \<and>
               (to_numeric L (cell_at (columns t) c r) \<noteq> NA \<longrightarrow>
                  cell_at (columns t) c (f r) = to_numeric L (cell_at (columns t) c r))))"
    if "\<exists>t'. p = Inr t' \<and> columns t' = columns t \<and>
         (\<exists>f. mset (rows t') = mset (map f (rows t)) \<and>
            (\<forall>r c. c \<in> set ncols \<longrightarrow> c \<in> set (columns t) \<longrightarrow>
               cell_at (columns t) c (f r) = coerced_or_zero L (cell_at (columns t) c r)))"
    for p :: "exc + table" and ncols
  proof -
    from that obtain t' f where p: "p = Inr t'" and c: "columns t' = columns t"
      and m: "mset (rows t') = mset (map f (rows t))"
      and v: "\<And>r c. c \<in> set ncols \<Longrightarrow> c \<in> set (columns t) \<Longrightarrow>
            cell_at (columns t) c (f r) = coerced_or_zero L (cell_at (columns t) c r)"
      by blast
    have "\<forall>r c. c \<in> set ncols \<longrightarrow> c \<in> set (columns t) \<longrightarrow>
               (\<exists>n. cell_at (columns t) c (f r) = Num n) \<and>
               (to_numeric L (cell_at (columns t) c r) = NA \<longrightarrow>
                  cell_at (columns t) c (f r) = Num 0) \<and>
               (to_numeric L (cell_at (columns t) c r) \<noteq> NA \<longrightarrow>
                  cell_at (columns t) c (f r) = to_numeric L (cell_at (columns t) c r))"
      using v coerced_or_zero_cases by metis
    with p c m show ?thesis by blast
  qed
  show ?thesis
  proof (intro conjI impI)
    assume "dates_uniform L [''data_iniSE'', ''data_ini_SE''] t"
    from process_with_numeric [OF L this subset_refl numeric_not_date]
    show "\<exists>t'. process_dengue_data L t = Inr t' \<and> columns t' = columns t \<and>
         (\<exists>f. mset (rows t') = mset (map f (rows t)) \<and>
            (\<forall>r c. c \<in> set numeric_cols \<longrightarrow> c \<in> set (columns t) \<longrightarrow>
               (\<exists>n. cell_at (columns t) c (f r) = Num n) \<and>
               (to_numeric L (cell_at (columns t) c r) = NA \<longrightarrow>
                  cell_at (columns t) c (f r) = Num 0) \<and>
               (to_numeric L (cell_at (columns t) c r) \<noteq> NA \<longrightarrow>
                  cell_at (columns t) c (f r) = to_numeric L (cell_at (columns t) c r))))"
      unfolding process_dengue_data_with by (rule widen)
  next
    assume "dates_uniform L [''data_iniSE''] t"
    from process_with_numeric [OF L this subset_refl fd_numeric_not_date]
    show "\<exists>t'. fd_process_dengue_data L t = Inr t' \<and> columns t' = columns t \<and>
         (\<exists>f. mset (rows t') = mset (map f (rows t)) \<and>
            (\<forall>r c. c \<in> set fd_numeric_cols \<longrightarrow> c \<in> set (columns t) \<longrightarrow>
               (\<exists>n. cell_at (columns t) c (f r) = Num n) \<and>
               (to_numeric L (cell_at (columns t) c r) = NA \<longrightarrow>
                  cell_at (columns t) c (f r) = Num 0) \<and>
               (to_numeric L (cell_at (columns t) c r) \<noteq> NA \<longrightarrow>
                  cell_at (columns t) c (f r) = to_numeric L (cell_at (columns t) c r))))"
      unfolding fd_process_dengue_data_with by (rule widen)
  next
    assume "\<not> is_empty t" "\<not> dates_uniform L [''data_iniSE'', ''data_ini_SE''] t"
    from process_with_raises [OF this subset_refl numeric_not_date]
    show "process_dengue_data L t = Inl TypeError"
      by (simp add: process_dengue_data_with)
  next
    assume "\<not> is_empty t" "\<not> dates_uniform L [''data_iniSE''] t"
    from process_with_raises [OF this subset_refl fd_numeric_not_date]
    show "fd_process_dengue_data L t = Inl TypeError"
      by (simp add: fd_process_dengue_data_with)
  qed
qed

lemma raw_cases_uniform:
  "dates_uniform sample_lib [''data_iniSE'', ''data_ini_SE''] raw_cases"
  "dates_uniform sample_lib [''data_iniSE''] raw_cases"
  by (simp_all add: dates_uniform_def sort_label_def raw_cases_def col_vals_def cell_at_def
      to_datetime_def sample_lib_def)

lemma half_dated_mixed:
  "\<not> dates_uniform sample_lib [''data_iniSE'', ''data_ini_SE''] half_dated"
  "\<not> dates_uniform sample_lib [''data_iniSE''] half_dated"
  "\<not> is_empty half_dated"
  by (simp_all add: dates_uniform_def sort_label_def half_dated_def col_vals_def cell_at_def
      to_datetime_def sample_lib_def is_empty_def)

theorem numeric_fields_coerced_witness:
  "sorts sample_lib \<and>
   dates_uniform sample_lib [''data_iniSE'', ''data_ini_SE''] raw_cases \<and>
   dates_uniform sample_lib [''data_iniSE''] raw_cases \<and>
   to_numeric sample_lib (Str ''abc'') = NA \<and>
   process_dengue_data sample_lib raw_cases = Inr clean_cases \<and>
   fd_process_dengue_data sample_lib raw_cases = Inr clean_cases \<and>
   (\<exists>f. mset (rows clean_cases) = mset (map f (rows raw_cases)) \<and>
        (\<forall>r c. c \<in> set numeric_cols \<longrightarrow> c \<in> set (columns raw_cases) \<longrightarrow>
           (\<exists>n. cell_at (columns raw_cases) c (f r) = Num n) \<and>
           (to_numeric sample_lib (cell_at (columns raw_cases) c r) = NA \<longrightarrow>
              cell_at (columns raw_cases) c (f r) = Num 0) \<and>
           (to_numeric sample_lib (cell_at (columns raw_cases) c r) \<noteq> NA \<longrightarrow>
              cell_at (columns raw_cases) c (f r) =
                to_numeric sample_lib (cell_at (columns raw_cases) c r)))) \<and>
   (\<exists>f. mset (rows clean_cases) = mset (map f (rows raw_cases)) \<and>
        (\<forall>r c. c \<in> set fd_numeric_cols \<longrightarrow> c \<in> set (columns raw_cases) \<longrightarrow>
           (\<exists>n. cell_at (columns raw_cases) c (f r) = Num n) \<and>
           (to_numeric sample_lib (cell_at (columns raw_cases) c r) = NA \<longrightarrow>
              cell_at (columns raw_cases) c (f r) = Num 0) \<and>
           (to_numeric sample_lib (cell_at (columns raw_cases) c r) \<noteq> NA \<longrightarrow>
              cell_at (columns raw_cases) c (f r) =
                to_numeric sample_lib (cell_at (columns raw_cases) c r)))) \<and>
   process_dengue_data sample_lib half_dated = Inl TypeError \<and>
   fd_process_dengue_data sample_lib half_dated = Inl TypeError"
proof -
  note th = numeric_fields_coerced [OF sorts_sample_lib]
  have a: "to_numeric sample_lib (Str ''abc'') = NA"
    by (simp add: to_numeric_def sample_lib_def)
  have p: "process_dengue_data sample_lib raw_cases = Inr clean_cases" by code_simp
  have q: "fd_process_dengue_data sample_lib raw_cases = Inr clean_cases" by code_simp
  from th [of raw_cases] raw_cases_uniform(1) p
  have 1: "\<exists>f. mset (rows clean_cases) = mset (map f (rows raw_cases)) \<and>
        (\<forall>r c. c \<in> set numeric_cols \<longrightarrow> c \<in> set (columns raw_cases) \<longrightarrow>
           (\<exists>n. cell_at (columns raw_cases) c (f r) = Num n) \<and>
           (to_numeric sample_lib (cell_at (columns raw_cases) c r) = NA \<longrightarrow>
              cell_at (columns raw_cases) c (f r) = Num 0) \<and>
           (to_numeric sample_lib (cell_at (columns raw_cases) c r) \<noteq> NA \<longrightarrow>
              cell_at (columns raw_cases) c (f r) =
                to_numeric sample_lib (cell_at (columns raw_cases) c r)))"
    by force
  from th [of raw_cases] raw_cases_uniform(2) q
  have 2: "\<exists>f. mset (rows clean_cases) = mset (map f (rows raw_cases)) \<and>
        (\<forall>r c. c \<in> set fd_numeric_cols \<longrightarrow> c \<in> set (columns raw_cases) \<longrightarrow>
           (\<exists>n. cell_at (columns raw_cases) c (f r) = Num n) \<and>
           (to_numeric sample_lib (cell_at (columns raw_cases) c r) = NA \<longrightarrow>
              cell_at (columns raw_cases) c (f r) = Num 0) \<and>
           (to_numeric sample_lib (cell_at (columns raw_cases) c r) \<noteq> NA \<longrightarrow>
              cell_at (columns raw_cases) c (f r) =
                to_numeric sample_lib (cell_at (columns raw_cases) c r)))"
    by force
  from th [of half_dated] half_dated_mixed
  have 3: "process_dengue_data sample_lib half_dated = Inl TypeError"
    "fd_process_dengue_data sample_lib half_dated = Inl TypeError" by blast+
  from sorts_sample_lib raw_cases_uniform a p q 1 2 3 show ?thesis by (intro conjI)
qed

theorem numeric_fields_no_table_counterexample:
  "to_numeric sample_lib (Str ''abc'') = NA \<and>
   cell_at (columns half_dated) ''casos'' (hd (rows half_dated)) = Str ''abc'' \<and>
   process_dengue_data sample_lib half_dated = Inl TypeError \<and>
   fd_process_dengue_data sample_lib half_dated = Inl TypeError"
  by code_simp

section \<open>Applying the processor twice\<close>

lemma sort_rank_Date_inj: "inj_on sort_rank (range Date)"
  by (auto simp: inj_on_def sort_rank_def)

lemma clean_row_idem:
  assumes dp: "dates_parse L dcols t" and disj: "set ncols \<inter> set dcols = {}"
    and r: "r \<in> set (rows t)"
  shows "clean_row ncols dcols L (columns t) (clean_row ncols dcols L (columns t) r) =
         clean_row ncols dcols L (columns t) r"
proof -
  let ?cols = "columns t"
  let ?C = "clean_row ncols dcols L ?cols"
  have pre: "k \<in> set dcols \<longrightarrow> k \<notin> set ncols \<and> to_datetime L (cell_at ?cols k r) \<noteq> NA"
    if "k \<in> set ?cols" for k
  proof
    assume k: "k \<in> set dcols"
    from disj k have "k \<notin> set ncols" by blast
    moreover from dp r k that have "to_datetime L (cell_at ?cols k r) \<noteq> NA"
      unfolding dates_parse_def by blast
    ultimately show "k \<notin> set ncols \<and> to_datetime L (cell_at ?cols k r) \<noteq> NA" by simp
  qed
  have "?C (?C r) = map (\<lambda>k. clean_cell ncols dcols L k (cell_at ?cols k (?C r))) ?cols"
    by (fact clean_row_def)
  also have "\<dots> = map (\<lambda>k. clean_cell ncols dcols L k (cell_at ?cols k r)) ?cols"
  proof (rule map_cong [OF refl])
    fix k assume k: "k \<in> set ?cols"
    have "cell_at ?cols k (?C r) = clean_cell ncols dcols L k (cell_at ?cols k r)"
      using k by (simp add: cell_at_clean_row)
    then show "clean_cell ncols dcols L k (cell_at ?cols k (?C r)) =
        clean_cell ncols dcols L k (cell_at ?cols k r)"
      using clean_cell_idem [OF pre [OF k]] by simp
  qed
  also have "\<dots> = ?C r"
    by (simp only: clean_row_def)
  finally show ?thesis .
qed
lemma cleaned_fixed:
  assumes dp: "dates_parse L dcols t" and disj: "set ncols \<inter> set dcols = {}"
    and c: "columns t' = columns t"
    and r: "set (rows t') \<subseteq> clean_row ncols dcols L (columns t) ` set (rows t)"
  shows "cleaned ncols dcols L t' = t'"
proof -
  have "map (clean_row ncols dcols L (columns t)) (rows t') = rows t'"
  proof (rule map_idI)
    fix x assume "x \<in> set (rows t')"
    with r obtain r0 where r0: "r0 \<in> set (rows t)" "x = clean_row ncols dcols L (columns t) r0"
      by blast
    show "clean_row ncols dcols L (columns t) x = x"
      unfolding r0(2) by (rule clean_row_idem [OF dp disj r0(1)])
  qed
  then have "rows (cleaned ncols dcols L t') = rows t'"
    by (simp add: rows_cleaned c)
  then show ?thesis
    by (intro table.equality) (simp_all add: cleaned_def)
qed

lemma dates_parse_uniform:
  assumes dp: "dates_parse L dcols t" and sub: "set scols \<subseteq> set dcols"
  shows "dates_uniform L scols t"
proof (cases "sort_label scols t")
  case None
  then show ?thesis by (simp add: dates_uniform_def)
next
  case (Some k)
  from sort_label_Some [OF Some] sub have k: "k \<in> set (columns t)" "k \<in> set dcols" by auto
  have "to_datetime L v \<noteq> NA" if "v \<in> set (col_vals t k)" for v
  proof -
    from that obtain r where "r \<in> set (rows t)" "v = cell_at (columns t) k r"
      unfolding col_vals_def by auto
    with dp k show ?thesis unfolding dates_parse_def by blast
  qed
  then have "list_all (\<lambda>v. to_datetime L v \<noteq> NA) (col_vals t k)"
    by (simp add: list_all_iff)
  with Some show ?thesis by (simp add: dates_uniform_def)
qed

lemma cleaned_key:
  assumes dp: "dates_parse L dcols t"
    and c: "c \<in> set (columns t)" "c \<in> set dcols" "c \<notin> set ncols"
    and r: "r \<in> set (rows t)"
  shows "\<exists>d. to_datetime L (cell_at (columns t) c r) = Date d \<and>
           cell_at (columns t) c (clean_row ncols dcols L (columns t) r) = Date d"
proof -
  have n: "to_datetime L (cell_at (columns t) c r) \<noteq> NA"
    using dp r c unfolding dates_parse_def by blast
  with to_datetime_range [of L "cell_at (columns t) c r"] obtain d where
    d: "to_datetime L (cell_at (columns t) c r) = Date d" by blast
  have "clean_cell ncols dcols L c (cell_at (columns t) c r) = Date d"
    using c(2,3) d by (simp add: clean_cell_def fill0_def)
  with d c(1) show ?thesis by (simp add: cell_at_clean_row)
qed

lemma dates_parse_kept:
  assumes dp: "dates_parse L dcols t" and disj: "set ncols \<inter> set dcols = {}"
    and c: "columns t' = columns t"
    and r: "set (rows t') \<subseteq> clean_row ncols dcols L (columns t) ` set (rows t)"
  shows "dates_parse L dcols t'"
  unfolding dates_parse_def
proof (intro ballI impI)
  fix x k assume x: "x \<in> set (rows t')" and k: "k \<in> set dcols" "k \<in> set (columns t')"
  from x r obtain r0 where r0: "r0 \<in> set (rows t)" "x = clean_row ncols dcols L (columns t) r0"
    by blast
  from disj k(1) have kn: "k \<notin> set ncols" by blast
  from k(2) c have kc: "k \<in> set (columns t)" by simp
  from cleaned_key [OF dp kc k(1) kn r0(1)] obtain d where
    "cell_at (columns t) k x = Date d" unfolding r0(2) by blast
  then show "to_datetime L (cell_at (columns t') k x) \<noteq> NA"
    by (simp add: c to_datetime_def)
qed
lemma process_with_dated:
  assumes dp: "dates_parse L dcols t"
    and sub: "set scols \<subseteq> set dcols" and disj: "set ncols \<inter> set dcols = {}"
  shows "process_with ncols dcols scols L t =
     Inr (if is_empty t then t
          else case sort_label scols t of
                 None \<Rightarrow> cleaned ncols dcols L t
               | Some c \<Rightarrow> sorted_by L c (cleaned ncols dcols L t))"
  using dates_parse_uniform [OF dp sub]
  by (simp add: process_with_uniform [OF sub disj] split: option.split)

lemma sorted_by_sorted:
  assumes L: "sorts L"
  shows "sorted (map sort_rank (col_vals (sorted_by L c t) c))"
proof -
  have "map sort_rank (col_vals (sorted_by L c t) c) =
      map (\<lambda>r. sort_rank (cell_at (columns t) c r))
        (lib_sort L (\<lambda>r. sort_rank (cell_at (columns t) c r)) (rows t))"
    by (simp add: col_vals_def rows_sorted_by)
  then show ?thesis
    by (simp only: sorted_lib_sort [OF L])
qed

lemma sorted_by_fixed:
  assumes L: "sorts L"
    and s: "sorted (map sort_rank (col_vals t c))"
    and d: "distinct (map sort_rank (col_vals t c))"
  shows "sorted_by L c t = t"
proof -
  have e: "map (\<lambda>r. sort_rank (cell_at (columns t) c r)) (rows t) = map sort_rank (col_vals t c)"
    by (simp add: col_vals_def)
  have "lib_sort L (\<lambda>r. sort_rank (cell_at (columns t) c r)) (rows t) = rows t"
    by (rule lib_sort_fixed [OF L]) (simp_all only: e s d)
  then have "rows (sorted_by L c t) = rows t"
    by (simp add: rows_sorted_by)
  then show ?thesis
    by (intro table.equality) (simp_all add: sorted_by_def)
qed

lemma untied_keys:
  assumes L: "sorts L" and dp: "dates_parse L dcols t"
    and c: "c \<in> set (columns t)" "c \<in> set dcols" "c \<notin> set ncols"
    and d: "distinct (map (to_datetime L) (col_vals t c))"
  shows "distinct (map sort_rank (col_vals (sorted_by L c (cleaned ncols dcols L t)) c))"
proof -
  let ?C = "clean_row ncols dcols L (columns t)"
  let ?key = "\<lambda>r. sort_rank (cell_at (columns t) c r)"
  have k: "?key (?C r) = sort_rank (to_datetime L (cell_at (columns t) c r))"
    if "r \<in> set (rows t)" for r
    using cleaned_key [OF dp c that] by force
  have "inj_on sort_rank (set (map (to_datetime L) (col_vals t c)))"
  proof (rule inj_on_subset [OF sort_rank_Date_inj], rule subsetI)
    fix v assume "v \<in> set (map (to_datetime L) (col_vals t c))"
    then obtain r where r: "r \<in> set (rows t)" "v = to_datetime L (cell_at (columns t) c r)"
      unfolding col_vals_def by auto
    from cleaned_key [OF dp c r(1)] r(2) show "v \<in> range Date" by auto
  qed
  with d have "distinct (map sort_rank (map (to_datetime L) (col_vals t c)))"
    by (simp only: distinct_map)
  moreover have "map ?key (map ?C (rows t)) = map sort_rank (map (to_datetime L) (col_vals t c))"
    by (simp add: col_vals_def k)
  ultimately have dk: "distinct (map ?key (map ?C (rows t)))" by simp
  have "mset (map ?key (lib_sort L ?key (map ?C (rows t)))) = mset (map ?key (map ?C (rows t)))"
    by (simp only: mset_map mset_lib_sort [OF L])
  with dk have "distinct (map ?key (lib_sort L ?key (map ?C (rows t))))"
    using mset_eq_imp_distinct_iff by blast
  moreover have "map sort_rank (col_vals (sorted_by L c (cleaned ncols dcols L t)) c) =
      map ?key (lib_sort L ?key (map ?C (rows t)))"
    by (simp add: col_vals_def rows_sorted_by rows_cleaned)
  ultimately show ?thesis by simp
qed

lemma process_with_twice:
  assumes L: "sorts L" and dp: "dates_parse L dcols t"
    and sub: "set scols \<subseteq> set dcols" and disj: "set ncols \<inter> set dcols = {}"
  shows "\<exists>t' t''. process_with ncols dcols scols L t = Inr t' \<and>
            process_with ncols dcols scols L t' = Inr t'' \<and>
            columns t'' = columns t' \<and> mset (rows t'') = mset (rows t') \<and>
            (\<forall>c. sort_label scols t = Some c \<longrightarrow>
               sorted (map sort_rank (col_vals t' c)) \<and> sorted (map sort_rank (col_vals t'' c))) \<and>
            (dates_untied L scols t \<longrightarrow> t'' = t')"
proof (cases "is_empty t")
  case True
  have p: "process_with ncols dcols scols L t = Inr t"
    using True by (simp add: process_with_def)
  have s: "sorted (map sort_rank (col_vals t c))" if "sort_label scols t = Some c" for c
  proof (cases "rows t = []")
    case True
    then show ?thesis by (simp add: col_vals_def)
  next
    case False
    with \<open>is_empty t\<close> have "columns t = []" by (simp add: is_empty_def)
    from sort_label_empty [OF this] that show ?thesis by simp
  qed
  have "process_with ncols dcols scols L t = Inr t \<and>
            process_with ncols dcols scols L t = Inr t \<and>
            columns t = columns t \<and> mset (rows t) = mset (rows t) \<and>
            (\<forall>c. sort_label scols t = Some c \<longrightarrow>
               sorted (map sort_rank (col_vals t c)) \<and> sorted (map sort_rank (col_vals t c))) \<and>
            (dates_untied L scols t \<longrightarrow> t = t)"
    using p s by simp
  then show ?thesis by (intro exI)
next
  case False
  let ?C = "clean_row ncols dcols L (columns t)"
  let ?u = "cleaned ncols dcols L t"
  have ru: "rows ?u = map ?C (rows t)" by (simp add: rows_cleaned)
  show ?thesis
  proof (cases "sort_label scols t")
    case None
    have 1: "process_with ncols dcols scols L t = Inr ?u"
      using False None by (simp add: process_with_dated [OF dp sub disj])
    have dpu: "dates_parse L dcols ?u"
      by (rule dates_parse_kept [OF dp disj]) (simp_all add: ru)
    have cl: "cleaned ncols dcols L ?u = ?u"
      by (rule cleaned_fixed [OF dp disj]) (simp_all add: ru)
    have neu: "\<not> is_empty ?u" using False by (simp add: is_empty_def ru)
    have lu: "sort_label scols ?u = None"
      using None by (simp add: sort_label_columns [of ?u t])
    have 2: "process_with ncols dcols scols L ?u = Inr ?u"
      using neu lu cl by (simp add: process_with_dated [OF dpu sub disj])
    have "process_with ncols dcols scols L t = Inr ?u \<and>
            process_with ncols dcols scols L ?u = Inr ?u \<and>
            columns ?u = columns ?u \<and> mset (rows ?u) = mset (rows ?u) \<and>
            (\<forall>c. sort_label scols t = Some c \<longrightarrow>
               sorted (map sort_rank (col_vals ?u c)) \<and> sorted (map sort_rank (col_vals ?u c))) \<and>
            (dates_untied L scols t \<longrightarrow> ?u = ?u)"
      using 1 2 None by simp
    then show ?thesis by (intro exI)
  next
    case (Some c)
    from sort_label_Some [OF Some] sub disj
    have c: "c \<in> set (columns t)" "c \<in> set dcols" "c \<notin> set ncols" by auto
    let ?t' = "sorted_by L c ?u"
    let ?t'' = "sorted_by L c ?t'"
    have 1: "process_with ncols dcols scols L t = Inr ?t'"
      using False Some by (simp add: process_with_dated [OF dp sub disj])
    have ct': "columns ?t' = columns t" by simp
    have set': "set (rows ?t') = ?C ` set (rows t)"
      by (simp add: rows_sorted_by set_lib_sort [OF L] ru)
    have len': "length (rows ?t') = length (rows t)"
      by (simp add: rows_sorted_by length_lib_sort [OF L] ru)
    have dp': "dates_parse L dcols ?t'"
      by (rule dates_parse_kept [OF dp disj ct']) (simp add: set')
    have cl: "cleaned ncols dcols L ?t' = ?t'"
      by (rule cleaned_fixed [OF dp disj ct']) (simp add: set')
    have ne': "\<not> is_empty ?t'" using False len' by (auto simp: is_empty_def)
    have l': "sort_label scols ?t' = Some c"
      using Some by (simp add: sort_label_columns [OF ct'])
    have 2: "process_with ncols dcols scols L ?t' = Inr ?t''"
      using ne' l' cl by (simp add: process_with_dated [OF dp' sub disj])
    have m: "mset (rows ?t'') = mset (rows ?t')"
      by (simp add: rows_sorted_by [of L c ?t'] mset_lib_sort [OF L])
    have s1: "sorted (map sort_rank (col_vals ?t' c))"
      by (rule sorted_by_sorted [OF L])
    have s2: "sorted (map sort_rank (col_vals ?t'' c))"
      by (rule sorted_by_sorted [OF L])
    have same: "?t'' = ?t'" if "dates_untied L scols t"
    proof (rule sorted_by_fixed [OF L s1])
      from that Some have "distinct (map (to_datetime L) (col_vals t c))"
        by (simp add: dates_untied_def)
      from untied_keys [OF L dp c this]
      show "distinct (map sort_rank (col_vals ?t' c))" .
    qed
    have "process_with ncols dcols scols L t = Inr ?t' \<and>
            process_with ncols dcols scols L ?t' = Inr ?t'' \<and>
            columns ?t'' = columns ?t' \<and> mset (rows ?t'') = mset (rows ?t') \<and>
            (\<forall>c. sort_label scols t = Some c \<longrightarrow>
               sorted (map sort_rank (col_vals ?t' c)) \<and> sorted (map sort_rank (col_vals ?t'' c))) \<and>
            (dates_untied L scols t \<longrightarrow> ?t'' = ?t')"
      using 1 2 m s1 s2 same Some by simp
    then show ?thesis by (intro exI)
  qed
qed
text \<open>
  C2.  On a frame in which every cell of the parsed date columns reads as a date, the
  processor returns, and applied to its own output it returns again, with the same columns
  and the same rows, again in ascending order of the date; the two frames are equal when no
  two rows share a date (the library's sort is free to reorder rows with equal dates) or
  when there is no date column to sort by.  (Where a date is missing or unreadable the fill
  puts the number 0 in its place, and a second application reads that 0 as the epoch.)
\<close>

theorem process_idempotent_on_dated:
  assumes L: "sorts L"
  shows
   "(dates_parse L [''data_iniSE'', ''data_ini_SE''] t \<longrightarrow>
      (\<exists>t' t''. process_dengue_data L t = Inr t' \<and>
          twice (process_dengue_data L) t = Inr t'' \<and>
          columns t'' = columns t' \<and> mset (rows t'') = mset (rows t') \<and>
          (\<forall>c. sort_label [''data_iniSE'', ''data_ini_SE''] t = Some c \<longrightarrow>
             sorted (map sort_rank (col_vals t' c)) \<and> sorted (map sort_rank (col_vals t'' c))) \<and>
          (dates_untied L [''data_iniSE'', ''data_ini_SE''] t \<longrightarrow> t'' = t'))) \<and>
    (dates_parse L [''data_iniSE''] t \<longrightarrow>
      (\<exists>t' t''. fd_process_dengue_data L t = Inr t' \<and>
          twice (fd_process_dengue_data L) t = Inr t'' \<and>
          columns t'' = columns t' \<and> mset (rows t'') = mset (rows t') \<and>
          (\<forall>c. sort_label [''data_iniSE''] t = Some c \<longrightarrow>
             sorted (map sort_rank (col_vals t' c)) \<and> sorted (map sort_rank (col_vals t'' c))) \<and>
          (dates_untied L [''data_iniSE''] t \<longrightarrow> t'' = t')))"
proof (intro conjI impI)
  assume "dates_parse L [''data_iniSE'', ''data_ini_SE''] t"
  from process_with_twice [OF L this subset_refl numeric_not_date]
  have "\<exists>t' t''. process_dengue_data L t = Inr t' \<and> (process_dengue_data L t' = Inr t'' \<and>
    columns t'' = columns t' \<and> mset (rows t'') = mset (rows t') \<and>
    (\<forall>c. sort_label [''data_iniSE'', ''data_ini_SE''] t = Some c \<longrightarrow>
       sorted (map sort_rank (col_vals t' c)) \<and> sorted (map sort_rank (col_vals t'' c))) \<and>
    (dates_untied L [''data_iniSE'', ''data_ini_SE''] t \<longrightarrow> t'' = t'))"
    unfolding process_dengue_data_with .
  then obtain t' t'' where 12: "process_dengue_data L t = Inr t' \<and> (process_dengue_data L t' = Inr t'' \<and>
    columns t'' = columns t' \<and> mset (rows t'') = mset (rows t') \<and>
    (\<forall>c. sort_label [''data_iniSE'', ''data_ini_SE''] t = Some c \<longrightarrow>
       sorted (map sort_rank (col_vals t' c)) \<and> sorted (map sort_rank (col_vals t'' c))) \<and>
    (dates_untied L [''data_iniSE'', ''data_ini_SE''] t \<longrightarrow> t'' = t'))"
    by (elim exE)
  note 1 = conjunct1 [OF 12] and 2 = conjunct2 [OF 12]
  have "twice (process_dengue_data L) t = process_dengue_data L t'"
    using 1 by (simp add: twice_def and_then_def)
  with 1 2 have "process_dengue_data L t = Inr t' \<and>
          twice (process_dengue_data L) t = Inr t'' \<and>
          columns t'' = columns t' \<and> mset (rows t'') = mset (rows t') \<and>
          (\<forall>c. sort_label [''data_iniSE'', ''data_ini_SE''] t = Some c \<longrightarrow>
             sorted (map sort_rank (col_vals t' c)) \<and> sorted (map sort_rank (col_vals t'' c))) \<and>
          (dates_untied L [''data_iniSE'', ''data_ini_SE''] t \<longrightarrow> t'' = t')"
    by simp
  then show "\<exists>t' t''. process_dengue_data L t = Inr t' \<and>
          twice (process_dengue_data L) t = Inr t'' \<and>
          columns t'' = columns t' \<and> mset (rows t'') = mset (rows t') \<and>
          (\<forall>c. sort_label [''data_iniSE'', ''data_ini_SE''] t = Some c \<longrightarrow>
             sorted (map sort_rank (col_vals t' c)) \<and> sorted (map sort_rank (col_vals t'' c))) \<and>
          (dates_untied L [''data_iniSE'', ''data_ini_SE''] t \<longrightarrow> t'' = t')"
    by (intro exI)
next
  assume "dates_parse L [''data_iniSE''] t"
  from process_with_twice [OF L this subset_refl fd_numeric_not_date]
  have "\<exists>t' t''. fd_process_dengue_data L t = Inr t' \<and> (fd_process_dengue_data L t' = Inr t'' \<and>
    columns t'' = columns t' \<and> mset (rows t'') = mset (rows t') \<and>
    (\<forall>c. sort_label [''data_iniSE''] t = Some c \<longrightarrow>
       sorted (map sort_rank (col_vals t' c)) \<and> sorted (map sort_rank (col_vals t'' c))) \<and>
    (dates_untied L [''data_iniSE''] t \<longrightarrow> t'' = t'))"
    unfolding fd_process_dengue_data_with .
  then obtain t' t'' where 12: "fd_process_dengue_data L t = Inr t' \<and> (fd_process_dengue_data L t' = Inr t'' \<and>
    columns t'' = columns t' \<and> mset (rows t'') = mset (rows t') \<and>
    (\<forall>c. sort_label [''data_iniSE''] t = Some c \<longrightarrow>
       sorted (map sort_rank (col_vals t' c)) \<and> sorted (map sort_rank (col_vals t'' c))) \<and>
    (dates_untied L [''data_iniSE''] t \<longrightarrow> t'' = t'))"
    by (elim exE)
  note 1 = conjunct1 [OF 12] and 2 = conjunct2 [OF 12]
  have "twice (fd_process_dengue_data L) t = fd_process_dengue_data L t'"
    using 1 by (simp add: twice_def and_then_def)
  with 1 2 have "fd_process_dengue_data L t = Inr t' \<and>
          twice (fd_process_dengue_data L) t = Inr t'' \<and>
          columns t'' = columns t' \<and> mset (rows t'') = mset (rows t') \<and>
          (\<forall>c. sort_label [''data_iniSE''] t = Some c \<longrightarrow>
             sorted (map sort_rank (col_vals t' c)) \<and> sorted (map sort_rank (col_vals t'' c))) \<and>
          (dates_untied L [''data_iniSE''] t \<longrightarrow> t'' = t')"
    by simp
  then show "\<exists>t' t''. fd_process_dengue_data L t = Inr t' \<and>
          twice (fd_process_dengue_data L) t = Inr t'' \<and>
          columns t'' = columns t' \<and> mset (rows t'') = mset (rows t') \<and>
          (\<forall>c. sort_label [''data_iniSE''] t = Some c \<longrightarrow>
             sorted (map sort_rank (col_vals t' c)) \<and> sorted (map sort_rank (col_vals t'' c))) \<and>
          (dates_untied L [''data_iniSE''] t \<longrightarrow> t'' = t')"
    by (intro exI)
qed

lemma raw_cases_dated:
  "dates_parse sample_lib [''data_iniSE'', ''data_ini_SE''] raw_cases"
  "dates_parse sample_lib [''data_iniSE''] raw_cases"
  "dates_untied sample_lib [''data_iniSE'', ''data_ini_SE''] raw_cases"
  "dates_untied sample_lib [''data_iniSE''] raw_cases"
  by (simp_all add: dates_parse_def dates_untied_def sort_label_def raw_cases_def col_vals_def
      cell_at_def to_datetime_def sample_lib_def)

theorem process_idempotent_on_dated_witness:
  "sorts sample_lib \<and>
   dates_parse sample_lib [''data_iniSE'', ''data_ini_SE''] raw_cases \<and>
   dates_untied sample_lib [''data_iniSE'', ''data_ini_SE''] raw_cases \<and>
   dates_parse sample_lib [''data_iniSE''] raw_cases \<and>
   dates_untied sample_lib [''data_iniSE''] raw_cases \<and>
   process_dengue_data sample_lib raw_cases = Inr clean_cases \<and>
   twice (process_dengue_data sample_lib) raw_cases = Inr clean_cases \<and>
   fd_process_dengue_data sample_lib raw_cases = Inr clean_cases \<and>
   twice (fd_process_dengue_data sample_lib) raw_cases = Inr clean_cases"
proof -
  note th = process_idempotent_on_dated [OF sorts_sample_lib, of raw_cases]
  have p: "process_dengue_data sample_lib raw_cases = Inr clean_cases" by code_simp
  have q: "fd_process_dengue_data sample_lib raw_cases = Inr clean_cases" by code_simp
  from th raw_cases_dated(1,3) have "\<exists>t' t''. process_dengue_data sample_lib raw_cases = Inr t' \<and>
      twice (process_dengue_data sample_lib) raw_cases = Inr t'' \<and> t'' = t'"
    by blast
  with p have p2: "twice (process_dengue_data sample_lib) raw_cases = Inr clean_cases"
    by force
  from th raw_cases_dated(2,4) have "\<exists>t' t''. fd_process_dengue_data sample_lib raw_cases = Inr t' \<and>
      twice (fd_process_dengue_data sample_lib) raw_cases = Inr t'' \<and> t'' = t'"
    by blast
  with q have q2: "twice (fd_process_dengue_data sample_lib) raw_cases = Inr clean_cases"
    by force
  from sorts_sample_lib raw_cases_dated p p2 q q2 show ?thesis by (intro conjI)
qed

theorem process_not_idempotent_counterexample:
  "process_dengue_data sample_lib undated =
     Inr \<lparr>columns = [''data_iniSE'', ''casos''], rows = [[Num 0, Num 1]]\<rparr> \<and>
   twice (process_dengue_data sample_lib) undated =
     Inr \<lparr>columns = [''data_iniSE'', ''casos''], rows = [[Date 0, Num 1]]\<rparr> \<and>
   twice (process_dengue_data sample_lib) undated \<noteq> process_dengue_data sample_lib undated \<and>
   twice (fd_process_dengue_data sample_lib) undated \<noteq> fd_process_dengue_data sample_lib undated"
  by code_simp

section \<open>The order of the processed frame\<close>

lemma process_with_sorted:
  assumes L: "sorts L" and u: "dates_uniform L scols t"
    and sub: "set scols \<subseteq> set dcols" and disj: "set ncols \<inter> set dcols = {}"
  shows "\<exists>t'. process_with ncols dcols scols L t = Inr t' \<and> columns t' = columns t \<and>
    mset (rows t') = mset (rows (if is_empty t then t else cleaned ncols dcols L t)) \<and>
    (\<forall>c. sort_label scols t = Some c \<longrightarrow> sorted (map sort_rank (col_vals t' c))) \<and>
    (sort_label scols t = None \<longrightarrow> t' = (if is_empty t then t else cleaned ncols dcols L t))"
proof (cases "is_empty t")
  case True
  have p: "process_with ncols dcols scols L t = Inr t"
    using True by (simp add: process_with_def)
  have s: "sorted (map sort_rank (col_vals t c))" if "sort_label scols t = Some c" for c
  proof (cases "rows t = []")
    case True
    then show ?thesis by (simp add: col_vals_def)
  next
    case False
    with \<open>is_empty t\<close> have "columns t = []" by (simp add: is_empty_def)
    from sort_label_empty [OF this] that show ?thesis by simp
  qed
  have "process_with ncols dcols scols L t = Inr t \<and> columns t = columns t \<and>
    mset (rows t) = mset (rows (if is_empty t then t else cleaned ncols dcols L t)) \<and>
    (\<forall>c. sort_label scols t = Some c \<longrightarrow> sorted (map sort_rank (col_vals t c))) \<and>
    (sort_label scols t = None \<longrightarrow> t = (if is_empty t then t else cleaned ncols dcols L t))"
    using p s True by simp
  then show ?thesis by (intro exI)
next
  case False
  let ?u = "cleaned ncols dcols L t"
  show ?thesis
  proof (cases "sort_label scols t")
    case None
    have "process_with ncols dcols scols L t = Inr ?u"
      using False None u by (simp add: process_with_uniform [OF sub disj])
    then have "process_with ncols dcols scols L t = Inr ?u \<and> columns ?u = columns t \<and>
      mset (rows ?u) = mset (rows (if is_empty t then t else cleaned ncols dcols L t)) \<and>
      (\<forall>c. sort_label scols t = Some c \<longrightarrow> sorted (map sort_rank (col_vals ?u c))) \<and>
      (sort_label scols t = None \<longrightarrow> ?u = (if is_empty t then t else cleaned ncols dcols L t))"
      using False None by simp
    then show ?thesis by (intro exI)
  next
    case (Some c)
    let ?t' = "sorted_by L c ?u"
    have 1: "process_with ncols dcols scols L t = Inr ?t'"
      using False Some u by (simp add: process_with_uniform [OF sub disj])
    have m: "mset (rows ?t') = mset (rows ?u)"
      by (simp add: rows_sorted_by [of L c ?u] mset_lib_sort [OF L])
    have s: "sorted (map sort_rank (col_vals ?t' c))"
      by (rule sorted_by_sorted [OF L])
    have "process_with ncols dcols scols L t = Inr ?t' \<and> columns ?t' = columns t \<and>
      mset (rows ?t') = mset (rows (if is_empty t then t else cleaned ncols dcols L t)) \<and>
      (\<forall>c. sort_label scols t = Some c \<longrightarrow> sorted (map sort_rank (col_vals ?t' c))) \<and>
      (sort_label scols t = None \<longrightarrow> ?t' = (if is_empty t then t else cleaned ncols dcols L t))"
      using 1 m s False Some by simp
    then show ?thesis by (intro exI)
  qed
qed

lemma sort_label_app:
  "sort_label [''data_iniSE'', ''data_ini_SE''] t =
     (if ''data_iniSE'' \<in> set (columns t) then Some ''data_iniSE''
      else if ''data_ini_SE'' \<in> set (columns t) then Some ''data_ini_SE'' else None)"
  by (simp add: sort_label_def)

lemma sort_label_fd:
  "sort_label [''data_iniSE''] t =
     (if ''data_iniSE'' \<in> set (columns t) then Some ''data_iniSE'' else None)"
  by (simp add: sort_label_def)

text \<open>
  C6.  Where the column it sorts by holds a readable date in every row or in none, the
  processor returns the cleaned rows of its input: \<^verbatim>\<open>app.py\<close>'s in ascending order of
  \<^verbatim>\<open>data_iniSE\<close>, else of \<^verbatim>\<open>data_ini_SE\<close>, and in the input's order when neither is a
  column; \<^verbatim>\<open>fetch_data.py\<close>'s in ascending order of \<^verbatim>\<open>data_iniSE\<close>, and in the input's
  order when that is no column, also when \<^verbatim>\<open>data_ini_SE\<close> is one.  On a frame with rows
  in which that column holds readable dates beside missing or unreadable ones, both raise
  \<^verbatim>\<open>TypeError\<close>.
\<close>

theorem process_sorts_by_week_start:
  assumes L: "sorts L"
  shows
   "(dates_uniform L [''data_iniSE'', ''data_ini_SE''] t \<longrightarrow>
      (\<exists>t'. process_dengue_data L t = Inr t' \<and> columns t' = columns t \<and>
         mset (rows t') =
           mset (rows (if is_empty t then t
                       else cleaned numeric_cols [''data_iniSE'', ''data_ini_SE''] L t)) \<and>
         (''data_iniSE'' \<in> set (columns t) \<longrightarrow>
            sorted (map sort_rank (col_vals t' ''data_iniSE''))) \<and>
         (''data_iniSE'' \<notin> set (columns t) \<and> ''data_ini_SE'' \<in> set (columns t) \<longrightarrow>
            sorted (map sort_rank (col_vals t' ''data_ini_SE''))) \<and>
         (''data_iniSE'' \<notin> set (columns t) \<and> ''data_ini_SE'' \<notin> set (columns t) \<longrightarrow>
            t' = (if is_empty t then t
                  else cleaned numeric_cols [''data_iniSE'', ''data_ini_SE''] L t)))) \<and>
    (dates_uniform L [''data_iniSE''] t \<longrightarrow>
      (\<exists>t'. fd_process_dengue_data L t = Inr t' \<and> columns t' = columns t \<and>
         mset (rows t') =
           mset (rows (if is_empty t then t else cleaned fd_numeric_cols [''data_iniSE''] L t)) \<and>
         (''data_iniSE'' \<in> set (columns t) \<longrightarrow>
            sorted (map sort_rank (col_vals t' ''data_iniSE''))) \<and>
         (''data_iniSE'' \<notin> set (columns t) \<longrightarrow>
            t' = (if is_empty t then t else cleaned fd_numeric_cols [''data_iniSE''] L t)))) \<and>
    (\<not> is_empty t \<and> \<not> dates_uniform L [''data_iniSE'', ''data_ini_SE''] t \<longrightarrow>
       process_dengue_data L t = Inl TypeError) \<and>
    (\<not> is_empty t \<and> \<not> dates_uniform L [''data_iniSE''] t \<longrightarrow>
       fd_process_dengue_data L t = Inl TypeError)"
proof (intro conjI impI)
  assume "dates_uniform L [''data_iniSE'', ''data_ini_SE''] t"
  from process_with_sorted [OF L this subset_refl numeric_not_date]
  have "\<exists>t'. process_dengue_data L t = Inr t' \<and> columns t' = columns t \<and>
    mset (rows t') = mset (rows (if is_empty t then t
         else cleaned numeric_cols [''data_iniSE'', ''data_ini_SE''] L t)) \<and>
    (\<forall>c. sort_label [''data_iniSE'', ''data_ini_SE''] t = Some c \<longrightarrow>
        sorted (map sort_rank (col_vals t' c))) \<and>
    (sort_label [''data_iniSE'', ''data_ini_SE''] t = None \<longrightarrow>
        t' = (if is_empty t then t
              else cleaned numeric_cols [''data_iniSE'', ''data_ini_SE''] L t))"
    unfolding process_dengue_data_with .
  then obtain t' where t': "process_dengue_data L t = Inr t' \<and> columns t' = columns t \<and>
    mset (rows t') = mset (rows (if is_empty t then t
         else cleaned numeric_cols [''data_iniSE'', ''data_ini_SE''] L t)) \<and>
    (\<forall>c. sort_label [''data_iniSE'', ''data_ini_SE''] t = Some c \<longrightarrow>
        sorted (map sort_rank (col_vals t' c))) \<and>
    (sort_label [''data_iniSE'', ''data_ini_SE''] t = None \<longrightarrow>
        t' = (if is_empty t then t
              else cleaned numeric_cols [''data_iniSE'', ''data_ini_SE''] L t))" ..
  then have "process_dengue_data L t = Inr t' \<and> columns t' = columns t \<and>
         mset (rows t') =
           mset (rows (if is_empty t then t
                       else cleaned numeric_cols [''data_iniSE'', ''data_ini_SE''] L t)) \<and>
         (''data_iniSE'' \<in> set (columns t) \<longrightarrow>
            sorted (map sort_rank (col_vals t' ''data_iniSE''))) \<and>
         (''data_iniSE'' \<notin> set (columns t) \<and> ''data_ini_SE'' \<in> set (columns t) \<longrightarrow>
            sorted (map sort_rank (col_vals t' ''data_ini_SE''))) \<and>
         (''data_iniSE'' \<notin> set (columns t) \<and> ''data_ini_SE'' \<notin> set (columns t) \<longrightarrow>
            t' = (if is_empty t then t
                  else cleaned numeric_cols [''data_iniSE'', ''data_ini_SE''] L t))"
    unfolding sort_label_app by simp
  then show "\<exists>t'. process_dengue_data L t = Inr t' \<and> columns t' = columns t \<and>
         mset (rows t') =
           mset (rows (if is_empty t then t
                       else cleaned numeric_cols [''data_iniSE'', ''data_ini_SE''] L t)) \<and>
         (''data_iniSE'' \<in> set (columns t) \<longrightarrow>
            sorted (map sort_rank (col_vals t' ''data_iniSE''))) \<and>
         (''data_iniSE'' \<notin> set (columns t) \<and> ''data_ini_SE'' \<in> set (columns t) \<longrightarrow>
            sorted (map sort_rank (col_vals t' ''data_ini_SE''))) \<and>
         (''data_iniSE'' \<notin> set (columns t) \<and> ''data_ini_SE'' \<notin> set (columns t) \<longrightarrow>
            t' = (if is_empty t then t
                  else cleaned numeric_cols [''data_iniSE'', ''data_ini_SE''] L t))"
    by (intro exI)
next
  assume "dates_uniform L [''data_iniSE''] t"
  from process_with_sorted [OF L this subset_refl fd_numeric_not_date]
  have "\<exists>t'. fd_process_dengue_data L t = Inr t' \<and> columns t' = columns t \<and>
    mset (rows t') = mset (rows (if is_empty t then t
         else cleaned fd_numeric_cols [''data_iniSE''] L t)) \<and>
    (\<forall>c. sort_label [''data_iniSE''] t = Some c \<longrightarrow>
        sorted (map sort_rank (col_vals t' c))) \<and>
    (sort_label [''data_iniSE''] t = None \<longrightarrow>
        t' = (if is_empty t then t else cleaned fd_numeric_cols [''data_iniSE''] L t))"
    unfolding fd_process_dengue_data_with .
  then obtain t' where t': "fd_process_dengue_data L t = Inr t' \<and> columns t' = columns t \<and>
    mset (rows t') = mset (rows (if is_empty t then t
         else cleaned fd_numeric_cols [''data_iniSE''] L t)) \<and>
    (\<forall>c. sort_label [''data_iniSE''] t = Some c \<longrightarrow>
        sorted (map sort_rank (col_vals t' c))) \<and>
    (sort_label [''data_iniSE''] t = None \<longrightarrow>
        t' = (if is_empty t then t else cleaned fd_numeric_cols [''data_iniSE''] L t))" ..
  then have "fd_process_dengue_data L t = Inr t' \<and> columns t' = columns t \<and>
         mset (rows t') =
           mset (rows (if is_empty t then t else cleaned fd_numeric_cols [''data_iniSE''] L t)) \<and>
         (''data_iniSE'' \<in> set (columns t) \<longrightarrow>
            sorted (map sort_rank (col_vals t' ''data_iniSE''))) \<and>
         (''data_iniSE'' \<notin> set (columns t) \<longrightarrow>
            t' = (if is_empty t then t else cleaned fd_numeric_cols [''data_iniSE''] L t))"
    unfolding sort_label_fd by simp
  then show "\<exists>t'. fd_process_dengue_data L t = Inr t' \<and> columns t' = columns t \<and>
         mset (rows t') =
           mset (rows (if is_empty t then t else cleaned fd_numeric_cols [''data_iniSE''] L t)) \<and>
         (''data_iniSE'' \<in> set (columns t) \<longrightarrow>
            sorted (map sort_rank (col_vals t' ''data_iniSE''))) \<and>
         (''data_iniSE'' \<notin> set (columns t) \<longrightarrow>
            t' = (if is_empty t then t else cleaned fd_numeric_cols [''data_iniSE''] L t))"
    by (intro exI)
next
  assume "\<not> is_empty t \<and> \<not> dates_uniform L [''data_iniSE'', ''data_ini_SE''] t"
  then show "process_dengue_data L t = Inl TypeError"
    unfolding process_dengue_data_with
    using process_with_raises [OF _ _ subset_refl numeric_not_date] by blast
next
  assume "\<not> is_empty t \<and> \<not> dates_uniform L [''data_iniSE''] t"
  then show "fd_process_dengue_data L t = Inl TypeError"
    unfolding fd_process_dengue_data_with
    using process_with_raises [OF _ _ subset_refl fd_numeric_not_date] by blast
qed

lemma late_first_uniform:
  "dates_uniform sample_lib [''data_iniSE'', ''data_ini_SE''] late_first"
  "dates_uniform sample_lib [''data_iniSE''] late_first"
  "''data_iniSE'' \<notin> set (columns late_first)"
  "''data_ini_SE'' \<in> set (columns late_first)"
  "\<not> is_empty late_first"
  by (simp_all add: dates_uniform_def sort_label_def late_first_def col_vals_def cell_at_def
      to_datetime_def is_empty_def)

theorem process_sorts_by_week_start_witness:
  "sorts sample_lib \<and>
   dates_uniform sample_lib [''data_iniSE'', ''data_ini_SE''] raw_cases \<and>
   dates_uniform sample_lib [''data_iniSE''] raw_cases \<and>
   ''data_iniSE'' \<in> set (columns raw_cases) \<and>
   process_dengue_data sample_lib raw_cases = Inr clean_cases \<and>
   fd_process_dengue_data sample_lib raw_cases = Inr clean_cases \<and>
   sorted (map sort_rank (col_vals clean_cases ''data_iniSE'')) \<and>
   dates_uniform sample_lib [''data_iniSE'', ''data_ini_SE''] late_first \<and>
   dates_uniform sample_lib [''data_iniSE''] late_first \<and>
   ''data_iniSE'' \<notin> set (columns late_first) \<and>
   ''data_ini_SE'' \<in> set (columns late_first) \<and>
   (\<exists>t'. process_dengue_data sample_lib late_first = Inr t' \<and>
      sorted (map sort_rank (col_vals t' ''data_ini_SE''))) \<and>
   fd_process_dengue_data sample_lib late_first =
     Inr (cleaned fd_numeric_cols [''data_iniSE''] sample_lib late_first) \<and>
   \<not> is_empty half_dated \<and>
   \<not> dates_uniform sample_lib [''data_iniSE'', ''data_ini_SE''] half_dated \<and>
   \<not> dates_uniform sample_lib [''data_iniSE''] half_dated \<and>
   process_dengue_data sample_lib half_dated = Inl TypeError \<and>
   fd_process_dengue_data sample_lib half_dated = Inl TypeError"
proof -
  note th = process_sorts_by_week_start [OF sorts_sample_lib]
  have c: "''data_iniSE'' \<in> set (columns raw_cases)" by (simp add: raw_cases_def)
  have p: "process_dengue_data sample_lib raw_cases = Inr clean_cases" by code_simp
  have q: "fd_process_dengue_data sample_lib raw_cases = Inr clean_cases" by code_simp
  from th [of raw_cases] raw_cases_uniform(1) c
  have "\<exists>t'. process_dengue_data sample_lib raw_cases = Inr t' \<and>
      sorted (map sort_rank (col_vals t' ''data_iniSE''))" by blast
  with p have s: "sorted (map sort_rank (col_vals clean_cases ''data_iniSE''))" by force
  from th [of late_first] late_first_uniform(1,3,4)
  have a: "\<exists>t'. process_dengue_data sample_lib late_first = Inr t' \<and>
      sorted (map sort_rank (col_vals t' ''data_ini_SE''))" by blast
  from th [of late_first] late_first_uniform(2,3,5)
  have "\<exists>t'. fd_process_dengue_data sample_lib late_first = Inr t' \<and>
      t' = cleaned fd_numeric_cols [''data_iniSE''] sample_lib late_first" by force
  then have b: "fd_process_dengue_data sample_lib late_first =
     Inr (cleaned fd_numeric_cols [''data_iniSE''] sample_lib late_first)" by blast
  from th [of half_dated] half_dated_mixed
  have e: "process_dengue_data sample_lib half_dated = Inl TypeError"
    "fd_process_dengue_data sample_lib half_dated = Inl TypeError" by blast+
  from sorts_sample_lib raw_cases_uniform c p q s late_first_uniform(1,2,3,4) a b
    half_dated_mixed(3,1,2) e
  show ?thesis by (intro conjI)
qed

theorem fd_process_ignores_data_ini_SE_counterexample:
  "''data_ini_SE'' \<in> set (columns late_first) \<and>
   fd_process_dengue_data sample_lib late_first = Inr late_first \<and>
   \<not> sorted (map sort_rank (col_vals late_first ''data_ini_SE'')) \<and>
   map (\<lambda>r. cell_at (columns half_dated) ''data_iniSE'' r) (rows half_dated) =
     [Str ''2024-01-01'', NA] \<and>
   process_dengue_data sample_lib half_dated = Inl TypeError \<and>
   fd_process_dengue_data sample_lib half_dated = Inl TypeError"
  by code_simp

section \<open>What the paginated fetch returns\<close>

lemma returned_state:
  assumes "collect_pages app_range srv = (Inr all_items, tr)"
  shows "returned (fetch_infodengue_state_data L srv) =
     (if is_empty (DataFrame all_items) then DataFrame all_items
      else case process_dengue_data L (DataFrame all_items) of
             Inl e \<Rightarrow> empty_frame | Inr t \<Rightarrow> t)"
  using assms
  by (simp add: fetch_infodengue_state_data_def and_then_def Let_def split: sum.splits)

lemma returned_state_cases:
  assumes L: "sorts L" and c: "collect_pages app_range srv = (Inr all_items, tr)"
  shows "let df = DataFrame all_items; out = returned (fetch_infodengue_state_data L srv)
     in (is_empty df \<longrightarrow> out = df) \<and>
        (\<not> is_empty df \<and> dates_uniform L [''data_iniSE'', ''data_ini_SE''] df \<longrightarrow>
           process_dengue_data L df = Inr out \<and> columns out = columns df \<and>
           mset (rows out) =
             mset (rows (cleaned numeric_cols [''data_iniSE'', ''data_ini_SE''] L df)) \<and>
           (\<forall>c. sort_label [''data_iniSE'', ''data_ini_SE''] df = Some c \<longrightarrow>
              sorted (map sort_rank (col_vals out c))) \<and>
           (sort_label [''data_iniSE'', ''data_ini_SE''] df = None \<longrightarrow>
              out = cleaned numeric_cols [''data_iniSE'', ''data_ini_SE''] L df)) \<and>
        (\<not> is_empty df \<and> \<not> dates_uniform L [''data_iniSE'', ''data_ini_SE''] df \<longrightarrow>
           out = empty_frame)"
proof -
  let ?df = "DataFrame all_items"
  let ?out = "returned (fetch_infodengue_state_data L srv)"
  let ?sc = "[''data_iniSE'', ''data_ini_SE'']"
  note r = returned_state [OF c, of L]
  have 1: "?out = ?df" if "is_empty ?df"
    using that r by simp
  have 2: "process_dengue_data L ?df = Inr ?out \<and> columns ?out = columns ?df \<and>
           mset (rows ?out) = mset (rows (cleaned numeric_cols ?sc L ?df)) \<and>
           (\<forall>c. sort_label ?sc ?df = Some c \<longrightarrow> sorted (map sort_rank (col_vals ?out c))) \<and>
           (sort_label ?sc ?df = None \<longrightarrow> ?out = cleaned numeric_cols ?sc L ?df)"
    if ne: "\<not> is_empty ?df" and u: "dates_uniform L ?sc ?df"
  proof -
    from process_with_sorted [OF L u subset_refl numeric_not_date]
    have "\<exists>t'. process_dengue_data L ?df = Inr t' \<and> columns t' = columns ?df \<and>
      mset (rows t') = mset (rows (if is_empty ?df then ?df else cleaned numeric_cols ?sc L ?df)) \<and>
      (\<forall>c. sort_label ?sc ?df = Some c \<longrightarrow> sorted (map sort_rank (col_vals t' c))) \<and>
      (sort_label ?sc ?df = None \<longrightarrow>
         t' = (if is_empty ?df then ?df else cleaned numeric_cols ?sc L ?df))"
      unfolding process_dengue_data_with .
    then obtain t' where t': "process_dengue_data L ?df = Inr t' \<and> columns t' = columns ?df \<and>
      mset (rows t') = mset (rows (if is_empty ?df then ?df else cleaned numeric_cols ?sc L ?df)) \<and>
      (\<forall>c. sort_label ?sc ?df = Some c \<longrightarrow> sorted (map sort_rank (col_vals t' c))) \<and>
      (sort_label ?sc ?df = None \<longrightarrow>
         t' = (if is_empty ?df then ?df else cleaned numeric_cols ?sc L ?df))" ..
    then have "?out = t'" using r ne by simp
    with t' ne show ?thesis by simp
  qed
  have 3: "?out = empty_frame" if ne: "\<not> is_empty ?df" and u: "\<not> dates_uniform L ?sc ?df"
  proof -
    have "process_dengue_data L ?df = Inl TypeError"
      unfolding process_dengue_data_with
      by (rule process_with_raises [OF ne u subset_refl numeric_not_date])
    with r ne show ?thesis by simp
  qed
  from 1 2 3 show ?thesis unfolding Let_def by blast
qed

text \<open>
  C3.  When page 1 replies with an envelope and the later pages reply too, the fetch of
  \<^verbatim>\<open>fetch_data.py\<close> requests page 1 and then the pages 2 to total_pages, and returns the
  frame of the items of these pages, concatenated in page order.  The fetch of \<^verbatim>\<open>app.py\<close>
  requests page 1 and then the pages 2 to min(total_pages, 5) and collects their items in
  page order, but what it returns is that frame after the processor: the cleaned rows in
  ascending order of the week's date where the date column is readable in every row or in
  none (in page order only where there is no date column), and the empty frame where the
  processor raises.
\<close>

theorem paginated_fetch_pages:
  assumes L: "sorts L" and p1: "srv 1 = Replied (Envelope its tp)"
  shows "((\<forall>p \<in> set [2..min (total_pages_of tp) 5]. replies_ok srv p) \<longrightarrow>
            collect_pages app_range srv =
              (Inr (concat (map (page_items srv) (1 # [2..min (total_pages_of tp) 5]))),
               1 # [2..min (total_pages_of tp) 5]) \<and>
            requested (fetch_infodengue_state_data L srv) = 1 # [2..min (total_pages_of tp) 5] \<and>
            (let df = DataFrame (concat (map (page_items srv) (1 # [2..min (total_pages_of tp) 5])));
                 out = returned (fetch_infodengue_state_data L srv)
             in (is_empty df \<longrightarrow> out = df) \<and>
                (\<not> is_empty df \<and> dates_uniform L [''data_iniSE'', ''data_ini_SE''] df \<longrightarrow>
                   process_dengue_data L df = Inr out \<and> columns out = columns df \<and>
                   mset (rows out) =
                     mset (rows (cleaned numeric_cols [''data_iniSE'', ''data_ini_SE''] L df)) \<and>
                   (\<forall>c. sort_label [''data_iniSE'', ''data_ini_SE''] df = Some c \<longrightarrow>
                      sorted (map sort_rank (col_vals out c))) \<and>
                   (sort_label [''data_iniSE'', ''data_ini_SE''] df = None \<longrightarrow>
                      out = cleaned numeric_cols [''data_iniSE'', ''data_ini_SE''] L df)) \<and>
                (\<not> is_empty df \<and> \<not> dates_uniform L [''data_iniSE'', ''data_ini_SE''] df \<longrightarrow>
                   out = empty_frame))) \<and>
         ((\<forall>p \<in> set [2..total_pages_of tp]. replies_ok srv p) \<longrightarrow>
            requested (fd_fetch_infodengue_data srv) = 1 # [2..total_pages_of tp] \<and>
            returned (fd_fetch_infodengue_data srv) =
              Inr (DataFrame (concat (map (page_items srv) (1 # [2..total_pages_of tp])))))"
proof (intro conjI impI)
  assume ok: "\<forall>p \<in> set [2..min (total_pages_of tp) 5]. replies_ok srv p"
  then have "\<forall>p \<in> set (app_range (total_pages_of tp)). replies_ok srv p"
    by (simp add: app_range_eq)
  from collect_pages_ok [where later = app_range, OF p1 this]
  show c: "collect_pages app_range srv =
              (Inr (concat (map (page_items srv) (1 # [2..min (total_pages_of tp) 5]))),
               1 # [2..min (total_pages_of tp) 5])"
    by (simp add: app_range_eq)
  show "requested (fetch_infodengue_state_data L srv) = 1 # [2..min (total_pages_of tp) 5]"
    by (simp add: requested_state c)
  show "let df = DataFrame (concat (map (page_items srv) (1 # [2..min (total_pages_of tp) 5])));
            out = returned (fetch_infodengue_state_data L srv)
        in (is_empty df \<longrightarrow> out = df) \<and>
           (\<not> is_empty df \<and> dates_uniform L [''data_iniSE'', ''data_ini_SE''] df \<longrightarrow>
              process_dengue_data L df = Inr out \<and> columns out = columns df \<and>
              mset (rows out) =
                mset (rows (cleaned numeric_cols [''data_iniSE'', ''data_ini_SE''] L df)) \<and>
              (\<forall>c. sort_label [''data_iniSE'', ''data_ini_SE''] df = Some c \<longrightarrow>
                 sorted (map sort_rank (col_vals out c))) \<and>
              (sort_label [''data_iniSE'', ''data_ini_SE''] df = None \<longrightarrow>
                 out = cleaned numeric_cols [''data_iniSE'', ''data_ini_SE''] L df)) \<and>
           (\<not> is_empty df \<and> \<not> dates_uniform L [''data_iniSE'', ''data_ini_SE''] df \<longrightarrow>
              out = empty_frame)"
    by (rule returned_state_cases [OF L c])
next
  assume ok: "\<forall>p \<in> set [2..total_pages_of tp]. replies_ok srv p"
  then have "\<forall>p \<in> set (fd_range (total_pages_of tp)). replies_ok srv p"
    by (simp add: fd_range_eq)
  from collect_pages_ok [where later = fd_range, OF p1 this]
  have c: "collect_pages fd_range srv =
              (Inr (concat (map (page_items srv) (1 # [2..total_pages_of tp]))), 1 # [2..total_pages_of tp])"
    by (simp add: fd_range_eq)
  show "requested (fd_fetch_infodengue_data srv) = 1 # [2..total_pages_of tp]"
    by (simp add: requested_fd c)
  show "returned (fd_fetch_infodengue_data srv) =
              Inr (DataFrame (concat (map (page_items srv) (1 # [2..total_pages_of tp]))))"
    by (simp add: fd_fetch_infodengue_data_def c)
qed

lemma paged_frames:
  "DataFrame [[(''casos'', Num 1)], [(''casos'', Num 2)], [(''casos'', Num 3)],
          [(''casos'', Num 4)], [(''casos'', Num 5)], [(''casos'', Num 6)], [(''casos'', Num 7)]] =
     \<lparr>columns = [''casos''],
          rows = [[Num 1], [Num 2], [Num 3], [Num 4], [Num 5], [Num 6], [Num 7]]\<rparr>"
  "DataFrame [[(''casos'', Num 1)], [(''casos'', Num 2)], [(''casos'', Num 3)],
          [(''casos'', Num 4)], [(''casos'', Num 5)]] =
     \<lparr>columns = [''casos''], rows = [[Num 1], [Num 2], [Num 3], [Num 4], [Num 5]]\<rparr>"
  by (simp_all add: DataFrame_def first_seen_def dict_get_def)

lemma five_pages:
  "\<not> is_empty \<lparr>columns = [''casos''], rows = [[Num 1], [Num 2], [Num 3], [Num 4], [Num 5]]\<rparr>"
  "dates_uniform sample_lib [''data_iniSE'', ''data_ini_SE'']
     \<lparr>columns = [''casos''], rows = [[Num 1], [Num 2], [Num 3], [Num 4], [Num 5]]\<rparr>"
  "sort_label [''data_iniSE'', ''data_ini_SE'']
     \<lparr>columns = [''casos''], rows = [[Num 1], [Num 2], [Num 3], [Num 4], [Num 5]]\<rparr> = None"
  "cleaned numeric_cols [''data_iniSE'', ''data_ini_SE''] sample_lib
     \<lparr>columns = [''casos''], rows = [[Num 1], [Num 2], [Num 3], [Num 4], [Num 5]]\<rparr> =
   \<lparr>columns = [''casos''], rows = [[Num 1], [Num 2], [Num 3], [Num 4], [Num 5]]\<rparr>"
  by (simp_all add: is_empty_def dates_uniform_def sort_label_def cleaned_def clean_row_def
      clean_cell_def cell_at_def numeric_cols_def to_numeric_def fill0_def)

theorem paginated_fetch_pages_witness:
  "sorts sample_lib \<and>
   paged_server 1 = Replied (Envelope (Some [[(''casos'', Num 1)]]) (Some 7)) \<and>
   list_all (replies_ok paged_server) [2, 3, 4, 5, 6, 7] \<and>
   requested (fetch_infodengue_state_data sample_lib paged_server) = [1, 2, 3, 4, 5] \<and>
   fst (collect_pages app_range paged_server) =
     Inr [[(''casos'', Num 1)], [(''casos'', Num 2)], [(''casos'', Num 3)],
          [(''casos'', Num 4)], [(''casos'', Num 5)]] \<and>
   returned (fetch_infodengue_state_data sample_lib paged_server) =
     \<lparr>columns = [''casos''], rows = [[Num 1], [Num 2], [Num 3], [Num 4], [Num 5]]\<rparr> \<and>
   requested (fd_fetch_infodengue_data paged_server) = [1, 2, 3, 4, 5, 6, 7] \<and>
   returned (fd_fetch_infodengue_data paged_server) =
     Inr \<lparr>columns = [''casos''],
          rows = [[Num 1], [Num 2], [Num 3], [Num 4], [Num 5], [Num 6], [Num 7]]\<rparr>"
proof -
  have h1: "paged_server 1 = Replied (Envelope (Some [[(''casos'', Num 1)]]) (Some 7))"
    by (simp add: paged_server_def)
  have h2: "total_pages_of (Some 7) = 7" by (simp add: total_pages_of_def)
  have ok7: "\<forall>p \<in> set [2..7]. replies_ok paged_server p"
    by (simp add: upto_2_7 replies_ok_def paged_server_def)
  have ok5: "\<forall>p \<in> set [2..min 7 5]. replies_ok paged_server p"
    by (simp add: upto_2_5 replies_ok_def paged_server_def)
  have items: "page_items paged_server p = (if 1 \<le> p \<and> p \<le> 7 then [[(''casos'', Num p)]] else [])" for p
    by (simp add: page_items_def paged_server_def)
  have all: "list_all (replies_ok paged_server) [2, 3, 4, 5, 6, 7]"
    by (simp add: replies_ok_def paged_server_def)
  from paginated_fetch_pages [of sample_lib paged_server _ "Some 7", OF sorts_sample_lib h1]
    ok5 ok7 h1 all sorts_sample_lib
  show ?thesis
    by (simp add: h2 upto_2_5 upto_2_7 items paged_frames five_pages Let_def)
qed

theorem paginated_fetch_not_page_order_counterexample:
  "list_all (replies_ok dated_server) [1, 2] \<and>
   fst (collect_pages app_range dated_server) =
     Inr [[(''data_iniSE'', Str ''2024-01-08''), (''casos'', Num 1)],
          [(''data_iniSE'', Str ''2024-01-01''), (''casos'', Num 2)]] \<and>
   requested (fetch_infodengue_state_data sample_lib dated_server) = [1, 2] \<and>
   returned (fetch_infodengue_state_data sample_lib dated_server) =
     \<lparr>columns = [''data_iniSE'', ''casos''],
      rows = [[Date 1704067200000000000, Num 2], [Date 1704672000000000000, Num 1]]\<rparr> \<and>
   list_all (replies_ok gap_server) [1, 2] \<and>
   fst (collect_pages app_range gap_server) =
     Inr [[(''data_iniSE'', Str ''2024-01-01''), (''casos'', Num 1)], [(''casos'', Num 2)]] \<and>
   requested (fetch_infodengue_state_data sample_lib gap_server) = [1, 2] \<and>
   returned (fetch_infodengue_state_data sample_lib gap_server) = empty_frame"
  by code_simp

end
